theory Spec2Isabelle
  imports Complex_Main
begin

section \<open>The style file reader (\<open>read_style_file\<close>)\<close>

subsection \<open>C library functions used by the reader\<close>

text \<open>\<open>isspace\<close> in the C locale: space, \<open>\t\<close>, \<open>\n\<close>, \<open>\v\<close>, \<open>\f\<close>, \<open>\r\<close>.\<close>

definition isspace :: "char \<Rightarrow> bool" where
  "isspace c = (c = CHR '' '' \<or> c = CHR 0x09 \<or> c = CHR 0x0A \<or> c = CHR 0x0B
                \<or> c = CHR 0x0C \<or> c = CHR 0x0D)"

text \<open>A C string ends at its first NUL byte.\<close>

definition c_str :: "string \<Rightarrow> string" where
  "c_str s = takeWhile (\<lambda>c. c \<noteq> CHR 0x00) s"

text \<open>
  \<open>fgets(buffer, n + 1, in)\<close>: at most \<open>n\<close> characters, stopping after a newline.
  The result is the buffer and the rest of the stream.
\<close>

fun fgets_split :: "nat \<Rightarrow> string \<Rightarrow> string \<times> string" where
  "fgets_split 0 s = ([], s)"
| "fgets_split (Suc n) [] = ([], [])"
| "fgets_split (Suc n) (c # s) =
     (if c = CHR 0x0A then ([c], s)
      else (case fgets_split n s of (b, r) \<Rightarrow> (c # b, r)))"

text \<open>
  The \<open>%Ns\<close> directive of \<open>sscanf\<close>: skip white space; at the end of the input the
  directive fails; otherwise it converts up to \<open>N\<close> characters that are not white space.
\<close>

definition scan_s :: "nat \<Rightarrow> string \<Rightarrow> (string \<times> string) option" where
  "scan_s w s =
     (let s1 = dropWhile isspace s in
      if s1 = [] then None
      else (let tok = take w (takeWhile (\<lambda>c. \<not> isspace c) s1)
            in Some (tok, drop (length tok) s1)))"

text \<open>
  \<open>sscanf(buffer, "%23s %63s %23s %127s", osmtype, tag, datatype, flags)\<close>: the list of
  the converted fields, in order; conversion stops at the first directive that fails.
\<close>

fun scan_fields :: "nat list \<Rightarrow> string \<Rightarrow> string list" where
  "scan_fields [] s = []"
| "scan_fields (w # ws) s =
     (case scan_s w s of None \<Rightarrow> [] | Some (tok, r) \<Rightarrow> tok # scan_fields ws r)"

definition sscanf_style :: "string \<Rightarrow> string list" where
  "sscanf_style buffer = scan_fields [23, 63, 23, 127] buffer"

text \<open>The return value of \<open>sscanf\<close>: \<open>EOF\<close> when the input ends before the first conversion.\<close>

definition sscanf_result :: "string list \<Rightarrow> int" where
  "sscanf_result toks = (if toks = [] then - 1 else int (length toks))"

text \<open>The tokens that successive \<open>strtok\<close> calls return for a set of delimiters.\<close>

fun strtok_acc :: "(char \<Rightarrow> bool) \<Rightarrow> string \<Rightarrow> string \<Rightarrow> string list" where
  "strtok_acc d cur [] = (if cur = [] then [] else [cur])"
| "strtok_acc d cur (c # s) =
     (if d c then (if cur = [] then strtok_acc d [] s else cur # strtok_acc d [] s)
      else strtok_acc d (cur @ [c]) s)"

definition flag_delim :: "char \<Rightarrow> bool" where
  "flag_delim c = (c = CHR '','' \<or> c = CHR 0x0D \<or> c = CHR 0x0A)"

definition strtok_flags :: "string \<Rightarrow> string list" where
  "strtok_flags s = strtok_acc flag_delim [] s"

text \<open>
  \<open>strtok\<close> writes a NUL over the delimiter that ends each token, so after the loop the
  array \<open>flags\<close> reads, as a C string, as its leading delimiters and its first token.
\<close>

definition flags_after_strtok :: "string \<Rightarrow> string" where
  "flags_after_strtok s =
     takeWhile flag_delim s @ takeWhile (\<lambda>c. \<not> flag_delim c) (dropWhile flag_delim s)"

text \<open>\<open>strstr(haystack, needle) != NULL\<close>.\<close>

fun strstr :: "string \<Rightarrow> string \<Rightarrow> bool" where
  "strstr [] n = (n = [])"
| "strstr (c # h) n = (take (length n) (c # h) = n \<or> strstr h n)"

subsection \<open>Style rules\<close>

text \<open>
  Modelled from the spec: the constants \<open>FLAG_POLYGON\<close>, \<open>FLAG_LINEAR\<close>, \<open>FLAG_NOCACHE\<close>,
  \<open>FLAG_DELETE\<close>, \<open>FLAG_PHSTORE\<close> and the struct \<open>taginfo\<close> are declared in
  \<open>taginfo_impl.hpp\<close>, which is absent. The spec gives \<open>flags\<close> as a set over these five
  flags; \<open>temp.flags |= f\<close> is insertion and \<open>temp.flags == FLAG_DELETE\<close> is equality
  with the singleton.
\<close>

datatype flag = FLAG_POLYGON | FLAG_LINEAR | FLAG_NOCACHE | FLAG_DELETE | FLAG_PHSTORE

record taginfo =
  ti_name :: string
  ti_type :: string
  ti_flags :: "flag set"

definition tagflags :: "(string \<times> flag) list" where
  "tagflags = [(''polygon'', FLAG_POLYGON), (''linear'', FLAG_LINEAR),
               (''nocache'', FLAG_NOCACHE), (''delete'', FLAG_DELETE),
               (''phstore'', FLAG_PHSTORE)]"

text \<open>
  Modelled from the spec: \<open>export_list\<close> (absent) maps the OSM types NODE and WAY to an
  ordered sequence of rules; \<open>add\<close> appends.
\<close>

datatype OsmType = OSMTYPE_WAY | OSMTYPE_NODE | OSMTYPE_RELATION

record export_list =
  el_node :: "taginfo list"
  el_way :: "taginfo list"

definition el_add :: "OsmType \<Rightarrow> taginfo \<Rightarrow> export_list \<Rightarrow> export_list" where
  "el_add t ti el =
     (case t of
        OSMTYPE_NODE \<Rightarrow> el\<lparr>el_node := el_node el @ [ti]\<rparr>
      | OSMTYPE_WAY \<Rightarrow> el\<lparr>el_way := el_way el @ [ti]\<rparr>
      | OSMTYPE_RELATION \<Rightarrow> el)"

definition el_get :: "export_list \<Rightarrow> OsmType \<Rightarrow> taginfo list" where
  "el_get el t =
     (case t of OSMTYPE_NODE \<Rightarrow> el_node el | OSMTYPE_WAY \<Rightarrow> el_way el
      | OSMTYPE_RELATION \<Rightarrow> [])"

subsection \<open>The reader\<close>

datatype style_error =
    CouldntOpen
  | TooFewFields nat int
  | WildcardNonDelete string
  | WeirdLine nat
  | ReadError
  | NoValidColumns

text \<open>
  The local variables that live across the iterations of the line loop. \<open>ps_flags\<close>
  is the array \<open>flags\<close>: \<open>sscanf\<close> leaves it as it was when a line has three
  fields only. \<open>ps_warnings\<close> are the "Unknown flag" messages written to stderr.
\<close>

record parse_state =
  ps_exlist :: export_list
  ps_lineno :: nat
  ps_num_read :: nat
  ps_enable_way_area :: bool
  ps_flags :: string
  ps_warnings :: "(string \<times> nat) list"

text \<open>The inner loop over \<open>tagflags\<close> for one token: the flag found, if any.\<close>

definition lookup_flag :: "string \<Rightarrow> flag option" where
  "lookup_flag str = map_of tagflags str"

fun scan_flags :: "nat \<Rightarrow> string list \<Rightarrow> flag set \<times> (string \<times> nat) list" where
  "scan_flags lineno [] = ({}, [])"
| "scan_flags lineno (str # strs) =
     (case scan_flags lineno strs of (fl, ws) \<Rightarrow>
        (case lookup_flag str of
           Some f \<Rightarrow> (insert f fl, ws)
         | None \<Rightarrow> (fl, (str, lineno) # ws)))"

text \<open>One iteration of the \<open>while (fgets ...)\<close> loop, for the buffer \<open>fgets\<close> returned.\<close>

definition style_line :: "string \<Rightarrow> parse_state \<Rightarrow> style_error + parse_state" where
  "style_line buffer ps0 =
     (let ps = ps0\<lparr>ps_lineno := Suc (ps_lineno ps0)\<rparr>;
          lineno = ps_lineno ps;
          str = takeWhile (\<lambda>c. c \<noteq> CHR ''#'') (c_str buffer);
          toks = sscanf_style str;
          fields = sscanf_result toks
      in if fields \<le> 0 then Inr ps
         else if fields < 3 then Inl (TooFewFields lineno fields)
         else
           (let osmtype = toks ! 0; tag = toks ! 1; datatype = toks ! 2;
                flagbuf = (if length toks = 4 then toks ! 3 else c_str (ps_flags ps));
                (fl, ws) = scan_flags lineno (strtok_flags flagbuf);
                temp = \<lparr>ti_name = tag, ti_type = datatype, ti_flags = fl\<rparr>;
                ps1 = ps\<lparr>ps_flags := flags_after_strtok flagbuf,
                         ps_warnings := ps_warnings ps @ ws\<rparr>
            in if ti_flags temp \<noteq> {FLAG_DELETE}
                  \<and> (CHR ''?'' \<in> set (ti_name temp) \<or> CHR ''*'' \<in> set (ti_name temp))
               then Inl (WildcardNonDelete (ti_name temp))
               else
                 (let ps2 = (if ti_name temp = ''way_area'' \<and> ti_flags temp = {FLAG_DELETE}
                             then ps1\<lparr>ps_enable_way_area := False\<rparr> else ps1);
                      node = strstr osmtype ''node'';
                      way = strstr osmtype ''way'';
                      ps3 = (if node
                             then ps2\<lparr>ps_exlist := el_add OSMTYPE_NODE temp (ps_exlist ps2)\<rparr>
                             else ps2);
                      ps4 = (if way
                             then ps3\<lparr>ps_exlist := el_add OSMTYPE_WAY temp (ps_exlist ps3)\<rparr>
                             else ps3);
                      kept = (node \<or> way)
                  in if \<not> kept then Inl (WeirdLine lineno)
                     else Inr (ps4\<lparr>ps_num_read := Suc (ps_num_read ps4)\<rparr>))))"

text \<open>The loop over the buffers that \<open>fgets\<close> returns; a fatal line ends the run.\<close>

fun style_lines :: "string list \<Rightarrow> parse_state \<Rightarrow> style_error + parse_state" where
  "style_lines [] ps = Inr ps"
| "style_lines (b # bs) ps =
     (case style_line b ps of Inl e \<Rightarrow> Inl e | Inr ps' \<Rightarrow> style_lines bs ps')"

text \<open>The buffers that the successive calls \<open>fgets(buffer, 1024, in)\<close> return.\<close>

function file_buffers :: "string \<Rightarrow> string list" where
  "file_buffers s =
     (if s = [] then []
      else (case fgets_split 1023 s of (b, r) \<Rightarrow> b # file_buffers r))"
  by pat_completeness auto
termination
proof -
  have le: "length (snd (fgets_split n t)) \<le> length t" for n t
    by (induction n t rule: fgets_split.induct) (auto split: prod.splits)
  have lt: "length (snd (fgets_split (Suc m) (c # t))) < length (c # t)" for m c t
    using le [of m t] by (auto split: prod.splits)
  have n: "(1023::nat) = Suc 1022" by simp
  have shorter: "length (snd (fgets_split 1023 s)) < length s" if "s \<noteq> []" for s
  proof -
    from that obtain c t where s: "s = c # t" by (cases s) auto
    show ?thesis unfolding s n by (simp only: lt)
  qed
  show ?thesis
    apply (relation "measure length")
     apply simp
    using shorter by (metis in_measure snd_conv)
qed

declare file_buffers.simps [simp del]

definition init_parse_state :: "string \<Rightarrow> export_list \<Rightarrow> parse_state" where
  "init_parse_state flags0 exlist =
     \<lparr>ps_exlist = exlist, ps_lineno = 0, ps_num_read = 0, ps_enable_way_area = True,
      ps_flags = flags0, ps_warnings = []\<rparr>"

text \<open>
  \<open>read_style_file(filename, exlist)\<close>. The file is \<open>None\<close> when \<open>fopen\<close> fails and its
  contents otherwise; \<open>ferr\<close> is what \<open>ferror(in)\<close> returns after the loop. \<open>flags0\<close>
  is what the uninitialised array \<open>flags\<close> holds on entry: the source reads it when the
  first rule has three fields only. The result is the filled export list and the value
  returned (\<open>enable_way_area\<close>).
\<close>

definition read_style_file ::
  "string \<Rightarrow> string option \<Rightarrow> bool \<Rightarrow> export_list \<Rightarrow> style_error + (export_list \<times> bool)" where
  "read_style_file flags0 file ferr exlist =
     (case file of
        None \<Rightarrow> Inl CouldntOpen
      | Some contents \<Rightarrow>
          (case style_lines (file_buffers contents) (init_parse_state flags0 exlist) of
             Inl e \<Rightarrow> Inl e
           | Inr ps \<Rightarrow>
               if ferr then Inl ReadError
               else if ps_num_read ps = 0 then Inl NoValidColumns
               else Inr (ps_exlist ps, ps_enable_way_area ps)))"

text \<open>\<open>new export_list()\<close> in \<open>output_pgsql_t::start\<close>.\<close>

definition new_export_list :: export_list where
  "new_export_list = \<lparr>el_node = [], el_way = []\<rparr>"

subsection \<open>The conditions under which a style line is fatal\<close>

text \<open>The fields of a line: what \<open>sscanf\<close> converts once the comment is cut off.\<close>

definition line_fields :: "string \<Rightarrow> string list" where
  "line_fields buffer = sscanf_style (takeWhile (\<lambda>c. c \<noteq> CHR ''#'') (c_str buffer))"

text \<open>The flag set of the rule on a line, read in the state the line is reached in.\<close>

definition line_flags :: "string \<Rightarrow> parse_state \<Rightarrow> flag set" where
  "line_flags buffer ps =
     fst (scan_flags (Suc (ps_lineno ps))
            (strtok_flags (if length (line_fields buffer) = 4 then line_fields buffer ! 3
                           else c_str (ps_flags ps))))"

text \<open>A non-blank line with fewer than three fields.\<close>

definition too_few_fields :: "string \<Rightarrow> bool" where
  "too_few_fields buffer = (0 < length (line_fields buffer) \<and> length (line_fields buffer) < 3)"

text \<open>A rule whose name has a wildcard and whose flag set is not exactly DELETE.\<close>

definition wildcard_non_delete :: "string \<Rightarrow> parse_state \<Rightarrow> bool" where
  "wildcard_non_delete buffer ps =
     (3 \<le> length (line_fields buffer) \<and> line_flags buffer ps \<noteq> {FLAG_DELETE}
      \<and> (CHR ''?'' \<in> set (line_fields buffer ! 1) \<or> CHR ''*'' \<in> set (line_fields buffer ! 1)))"

text \<open>A rule whose OSM type field has neither "node" nor "way" in it.\<close>

definition no_node_or_way :: "string \<Rightarrow> bool" where
  "no_node_or_way buffer =
     (3 \<le> length (line_fields buffer) \<and> \<not> strstr (line_fields buffer ! 0) ''node''
      \<and> \<not> strstr (line_fields buffer ! 0) ''way'')"

section \<open>The output stage (\<open>output_pgsql_t\<close>)\<close>

subsection \<open>Data\<close>

text \<open>
  Modelled from the spec: \<open>osmid_t\<close> is declared in \<open>osmtypes.hpp\<close> (absent); the spec
  gives it as a signed 64-bit integer. Identifiers are integers here, and
  \<open>std::numeric_limits<osmid_t>::max()\<close> is the constant below.
\<close>

type_synonym osmid = int

definition osmid_max :: osmid where
  "osmid_max = 2 ^ 63 - 1"

text \<open>A \<open>struct keyval\<close> list: the tags of an object, in order.\<close>

type_synonym keyval = "(string \<times> string) list"

text \<open>
  A \<open>struct osmNode\<close>. The coordinates are doubles in the source; the output stage hands
  them on and never computes with them.
\<close>

datatype osmNode = OsmNode (nd_lat: real) (nd_lon: real)

text \<open>
  What a table row holds: the geometry is the WKT that \<open>write_way\<close> received, or the
  coordinates that \<open>write_node\<close> received.
\<close>

datatype geometry = Wkt string | Point real real

record row =
  row_id :: osmid
  row_tags :: keyval
  row_geom :: geometry

text \<open>
  Modelled from the spec: \<open>table_t\<close> (absent). A table is its rows, in the order
  written, and whether a COPY is active. \<open>write_way\<close> and \<open>write_node\<close> append one row
  and restart COPY; \<open>pgsql_pause_copy\<close> ends the active COPY; \<open>delete_row\<close> pauses COPY
  and deletes the rows whose \<open>osm_id\<close> is the one given.
\<close>

record table =
  tbl_rows :: "row list"
  tbl_copying :: bool

definition write_way :: "osmid \<Rightarrow> keyval \<Rightarrow> string \<Rightarrow> table \<Rightarrow> table" where
  "write_way oid tags wkt t =
     t\<lparr>tbl_rows := tbl_rows t @ [\<lparr>row_id = oid, row_tags = tags, row_geom = Wkt wkt\<rparr>],
       tbl_copying := True\<rparr>"

definition write_node :: "osmid \<Rightarrow> keyval \<Rightarrow> real \<Rightarrow> real \<Rightarrow> table \<Rightarrow> table" where
  "write_node oid tags lat lon t =
     t\<lparr>tbl_rows := tbl_rows t @ [\<lparr>row_id = oid, row_tags = tags, row_geom = Point lat lon\<rparr>],
       tbl_copying := True\<rparr>"

definition pgsql_pause_copy :: "table \<Rightarrow> table" where
  "pgsql_pause_copy t = t\<lparr>tbl_copying := False\<rparr>"

definition delete_row :: "osmid \<Rightarrow> table \<Rightarrow> table" where
  "delete_row oid t =
     t\<lparr>tbl_rows := filter (\<lambda>r. row_id r \<noteq> oid) (tbl_rows t), tbl_copying := False\<rparr>"

text \<open>
  Modelled from the spec: \<open>pgsql_id_tracker\<close> (absent). A tracker is the collection of
  the marked ids; marking an id twice is tolerated. \<open>pop_mark\<close> removes and returns the
  smallest marked id, or returns the sentinel \<open>max\<close> when nothing is marked.
\<close>

type_synonym id_tracker = "osmid list"

definition mark :: "osmid \<Rightarrow> id_tracker \<Rightarrow> id_tracker" where
  "mark oid tr = oid # tr"

definition is_marked :: "osmid \<Rightarrow> id_tracker \<Rightarrow> bool" where
  "is_marked oid tr = (oid \<in> set tr)"

definition pop_mark :: "id_tracker \<Rightarrow> osmid \<times> id_tracker" where
  "pop_mark tr =
     (if tr = [] then (osmid_max, [])
      else (Min (set tr), removeAll (Min (set tr)) tr))"

text \<open>
  The calls made to the tile expiry object (\<open>expire_tiles\<close>, absent), in order. The
  tables \<open>from_db\<close> is asked about are named by their index.
\<close>

datatype table_id = t_point | t_line | t_poly | t_roads

datatype expire_call =
    From_bbox real real real real
  | From_nodes_poly "osmNode list" osmid
  | From_nodes_line "osmNode list"
  | From_wkt string osmid
  | From_db table_id osmid

text \<open>The options that the modelled functions read.\<close>

record options =
  opt_slim :: bool
  opt_droptemp :: bool
  opt_proj_latlong :: bool
  opt_enable_multi :: bool

text \<open>A \<open>struct member\<close> of a relation.\<close>

record member =
  mem_type :: OsmType
  mem_id :: osmid
  mem_role :: string

text \<open>
  The collaborators of the output stage whose code is absent, as parameters: the tag
  transform (\<open>m_tagtransform\<close>), the geometry builder (\<open>builder\<close>), the middle
  (\<open>m_mid\<close>) and the \<open>"%g"\<close> conversion of \<open>snprintf\<close>; with them the options and
  \<open>m_enable_way_area\<close>.

  The filters return their result (true for a nonzero value) followed by their out
  parameters. The builder returns the geometries of one call as pairs of the WKT
  (\<open>get_wkt(i)\<close>, a copy of the stored string) and its area (\<open>get_area(i)\<close>).
  \<open>ways_get\<close> and \<open>relations_get\<close> return \<open>None\<close> when the middle misses the object
  (a nonzero return value in the source).
\<close>

record env =
  m_options :: options
  m_enable_way_area :: bool
  filter_node_tags :: "keyval \<Rightarrow> bool"
  filter_way_tags :: "keyval \<Rightarrow> bool \<times> bool \<times> bool"
  filter_rel_tags :: "keyval \<Rightarrow> bool"
  filter_rel_member_tags ::
    "keyval \<Rightarrow> keyval list \<Rightarrow> string option list \<Rightarrow> bool \<times> bool list \<times> bool \<times> bool \<times> bool"
  get_wkt_split :: "osmNode list \<Rightarrow> bool \<Rightarrow> real \<Rightarrow> (string \<times> real) list"
  build :: "osmid \<Rightarrow> osmNode list list \<Rightarrow> bool \<Rightarrow> bool \<Rightarrow> real \<Rightarrow> (string \<times> real) list"
  nodes_get_list :: "osmid list \<Rightarrow> osmNode list"
  ways_get :: "osmid \<Rightarrow> (keyval \<times> osmNode list) option"
  ways_get_list :: "osmid list \<Rightarrow> (osmid \<times> keyval \<times> osmNode list) list"
  relations_get :: "osmid \<Rightarrow> (member list \<times> keyval) option"
  relations_using_way :: "osmid \<Rightarrow> osmid list"
  format_g :: "real \<Rightarrow> string"

text \<open>The mutable members of \<open>output_pgsql_t\<close>: the four tables, the three trackers, expiry.\<close>

record out_state =
  tbl_point :: table
  tbl_line :: table
  tbl_poly :: table
  tbl_roads :: table
  ways_pending_tracker :: id_tracker
  ways_done_tracker :: id_tracker
  rels_pending_tracker :: id_tracker
  expire :: "expire_call list"

text \<open>
  Modelled from the spec: \<open>expire->from_db(conn, id)\<close> (absent) returns nonzero when
  the object previously existed, that is when the table has a row with this id.
\<close>

definition from_db_result :: "table \<Rightarrow> osmid \<Rightarrow> int" where
  "from_db_result t oid = (if \<exists>r \<in> set (tbl_rows t). row_id r = oid then 1 else 0)"

subsection \<open>Starting the output (\<open>output_pgsql_t::start\<close>)\<close>

text \<open>
  The statements of \<open>start\<close> that read the style:
  \<open>m_export_list = new export_list(); m_enable_way_area = read_style_file(m_options->style,
  m_export_list);\<close>. A fatal error of the reader ends the import. The arguments
  \<open>flags0\<close>, \<open>file\<close> and \<open>ferr\<close> are those of \<open>read_style_file\<close>. The statements that
  follow in \<open>start\<close> create the tag transform, the expiry object, the trackers and the
  tables, whose classes are absent; they do not write \<open>m_enable_way_area\<close>.
\<close>

definition start ::
  "string \<Rightarrow> string option \<Rightarrow> bool \<Rightarrow> env \<Rightarrow> style_error + (export_list \<times> env)" where
  "start flags0 file ferr E =
     (case read_style_file flags0 file ferr new_export_list of
        Inl e \<Rightarrow> Inl e
      | Inr (m_export_list, enable) \<Rightarrow> Inr (m_export_list, E\<lparr>m_enable_way_area := enable\<rparr>))"

subsection \<open>Deleting a way from the output\<close>

definition pgsql_delete_way_from_output :: "env \<Rightarrow> osmid \<Rightarrow> out_state \<Rightarrow> out_state" where
  "pgsql_delete_way_from_output E osm_id s =
     (if \<not> opt_slim (m_options E) then s
      else if opt_droptemp (m_options E) then s
      else
        (let s1 = s\<lparr>tbl_roads := pgsql_pause_copy (tbl_roads s)\<rparr>;
             s2 = s1\<lparr>tbl_line := pgsql_pause_copy (tbl_line s1)\<rparr>;
             s3 = s2\<lparr>tbl_poly := pgsql_pause_copy (tbl_poly s2)\<rparr>;
             s4 = s3\<lparr>tbl_roads := delete_row osm_id (tbl_roads s3)\<rparr>;
             s5 = s4\<lparr>expire := expire s4 @ [From_db t_line osm_id]\<rparr>;
             s6 = (if from_db_result (tbl_line s5) osm_id \<noteq> 0
                   then s5\<lparr>tbl_line := delete_row osm_id (tbl_line s5)\<rparr> else s5);
             s7 = s6\<lparr>expire := expire s6 @ [From_db t_poly osm_id]\<rparr>;
             s8 = (if from_db_result (tbl_poly s7) osm_id \<noteq> 0
                   then s7\<lparr>tbl_poly := delete_row osm_id (tbl_poly s7)\<rparr> else s7)
         in s8))"

datatype fatal = CannotApplyDiffs

definition way_delete :: "env \<Rightarrow> osmid \<Rightarrow> out_state \<Rightarrow> fatal + out_state" where
  "way_delete E osm_id s =
     (if \<not> opt_slim (m_options E) then Inl CannotApplyDiffs
      else Inr (pgsql_delete_way_from_output E osm_id s))"

subsection \<open>Writing a way\<close>

text \<open>
  \<open>!strncmp(wkt, "POLYGON", strlen("POLYGON")) || !strncmp(wkt, "MULTIPOLYGON",
  strlen("MULTIPOLYGON"))\<close>.
\<close>

definition is_polygon_wkt :: "string \<Rightarrow> bool" where
  "is_polygon_wkt wkt = (take 7 wkt = ''POLYGON'' \<or> take 12 wkt = ''MULTIPOLYGON'')"

text \<open>\<open>addItem(tags, "way_area", tmp, 0)\<close>: a new item at the end of the list.\<close>

definition add_way_area :: "env \<Rightarrow> real \<Rightarrow> keyval \<Rightarrow> keyval" where
  "add_way_area E area tags = tags @ [(''way_area'', format_g E area)]"

definition split_at :: "env \<Rightarrow> real" where
  "split_at E = (if opt_proj_latlong (m_options E) then 1 else 100 * 1000)"

text \<open>
  The body of the loop over the geometries in \<open>pgsql_out_way\<close>, for the geometry
  \<open>(wkt, area)\<close>. The tags are the caller's list, which \<open>addItem\<close> extends in place, so
  they are threaded through the loop with the state.
\<close>

definition out_way_wkt ::
  "env \<Rightarrow> osmid \<Rightarrow> osmNode list \<Rightarrow> bool \<Rightarrow> string \<times> real \<Rightarrow> keyval \<times> out_state
     \<Rightarrow> keyval \<times> out_state" where
  "out_way_wkt E oid nodes roads g ts =
     (case g of (wkt, area) \<Rightarrow> (case ts of (tags, s) \<Rightarrow>
        if wkt \<noteq> [] then
          (if is_polygon_wkt wkt then
             (let s1 = s\<lparr>expire := expire s @ [From_nodes_poly nodes oid]\<rparr>;
                  tags1 = (if area > 0 \<and> m_enable_way_area E
                           then add_way_area E area tags else tags)
              in (tags1, s1\<lparr>tbl_poly := write_way oid tags1 wkt (tbl_poly s1)\<rparr>))
           else
             (let s1 = s\<lparr>expire := expire s @ [From_nodes_line nodes]\<rparr>;
                  s2 = s1\<lparr>tbl_line := write_way oid tags wkt (tbl_line s1)\<rparr>
              in (tags, if roads then s2\<lparr>tbl_roads := write_way oid tags wkt (tbl_roads s2)\<rparr>
                        else s2)))
        else (tags, s)))"

fun out_way_wkts ::
  "env \<Rightarrow> osmid \<Rightarrow> osmNode list \<Rightarrow> bool \<Rightarrow> (string \<times> real) list \<Rightarrow> keyval \<times> out_state
     \<Rightarrow> keyval \<times> out_state" where
  "out_way_wkts E oid nodes roads [] ts = ts"
| "out_way_wkts E oid nodes roads (g # gs) ts =
     out_way_wkts E oid nodes roads gs (out_way_wkt E oid nodes roads g ts)"

fun mark_all :: "osmid list \<Rightarrow> id_tracker \<Rightarrow> id_tracker" where
  "mark_all [] tr = tr"
| "mark_all (r # rs) tr = mark_all rs (mark r tr)"

definition pgsql_out_way ::
  "env \<Rightarrow> osmid \<Rightarrow> keyval \<Rightarrow> osmNode list \<Rightarrow> bool \<Rightarrow> out_state \<Rightarrow> out_state" where
  "pgsql_out_way E oid tags nodes exists s =
     (let s1 = (if exists
                then (let sd = pgsql_delete_way_from_output E oid s
                      in sd\<lparr>rels_pending_tracker :=
                             mark_all (relations_using_way E oid) (rels_pending_tracker sd)\<rparr>)
                else s)
      in (case filter_way_tags E tags of (filt, polygon, roads) \<Rightarrow>
            if filt then s1
            else snd (out_way_wkts E oid nodes roads
                        (get_wkt_split E nodes polygon (split_at E)) (tags, s1))))"

subsection \<open>Writing a node\<close>

definition pgsql_out_node ::
  "env \<Rightarrow> osmid \<Rightarrow> keyval \<Rightarrow> real \<Rightarrow> real \<Rightarrow> out_state \<Rightarrow> out_state" where
  "pgsql_out_node E oid tags node_lat node_lon s =
     (if filter_node_tags E tags then s
      else (let s1 = s\<lparr>expire := expire s @ [From_bbox node_lon node_lat node_lon node_lat]\<rparr>
            in s1\<lparr>tbl_point := write_node oid tags node_lat node_lon (tbl_point s1)\<rparr>))"

definition node_add ::
  "env \<Rightarrow> osmid \<Rightarrow> real \<Rightarrow> real \<Rightarrow> keyval \<Rightarrow> out_state \<Rightarrow> out_state" where
  "node_add E oid lat lon tags s = pgsql_out_node E oid tags lat lon s"

subsection \<open>Adding a way\<close>

definition way_add :: "env \<Rightarrow> osmid \<Rightarrow> osmid list \<Rightarrow> keyval \<Rightarrow> out_state \<Rightarrow> out_state" where
  "way_add E oid nds tags s =
     (case filter_way_tags E tags of (filt, polygon, roads) \<Rightarrow>
        (let s1 = (if \<not> filt \<and> polygon
                   then s\<lparr>ways_pending_tracker := mark oid (ways_pending_tracker s)\<rparr>
                   else s)
         in if \<not> polygon \<and> \<not> filt
            then pgsql_out_way E oid tags (nodes_get_list E nds) False s1
            else s1))"

subsection \<open>Writing a relation\<close>

text \<open>
  One entry of the parallel arrays \<open>xid\<close>, \<open>xtags\<close>, \<open>xnodes\<close>, \<open>xcount\<close>, \<open>xrole\<close>
  that \<open>pgsql_out_relation\<close> receives; \<open>xcount[i]\<close> is the length of \<open>mw_nodes\<close>. The
  role is \<open>None\<close> when \<open>pgsql_process_relation\<close> took it from past the end of
  \<open>members\<close>.
\<close>

record member_way =
  mw_id :: osmid
  mw_tags :: keyval
  mw_nodes :: "osmNode list"
  mw_role :: "string option"

text \<open>The body of the first loop over the geometries in \<open>pgsql_out_relation\<close>.\<close>

definition out_rel_wkt ::
  "env \<Rightarrow> osmid \<Rightarrow> bool \<Rightarrow> string \<times> real \<Rightarrow> keyval \<times> out_state \<Rightarrow> keyval \<times> out_state" where
  "out_rel_wkt E oid roads g ts =
     (case g of (wkt, area) \<Rightarrow> (case ts of (rel_tags, s) \<Rightarrow>
        if wkt \<noteq> [] then
          (let s1 = s\<lparr>expire := expire s @ [From_wkt wkt (- oid)]\<rparr>
           in if is_polygon_wkt wkt then
                (let tags1 = (if area > 0 \<and> m_enable_way_area E
                              then add_way_area E area rel_tags else rel_tags)
                 in (tags1, s1\<lparr>tbl_poly := write_way (- oid) tags1 wkt (tbl_poly s1)\<rparr>))
              else
                (let s2 = s1\<lparr>tbl_line := write_way (- oid) rel_tags wkt (tbl_line s1)\<rparr>
                 in (rel_tags,
                     if roads
                     then s2\<lparr>tbl_roads := write_way (- oid) rel_tags wkt (tbl_roads s2)\<rparr>
                     else s2)))
        else (rel_tags, s)))"

fun out_rel_wkts ::
  "env \<Rightarrow> osmid \<Rightarrow> bool \<Rightarrow> (string \<times> real) list \<Rightarrow> keyval \<times> out_state
     \<Rightarrow> keyval \<times> out_state" where
  "out_rel_wkts E oid roads [] ts = ts"
| "out_rel_wkts E oid roads (g # gs) ts =
     out_rel_wkts E oid roads gs (out_rel_wkt E oid roads g ts)"

text \<open>The body of the loop of the second, boundary, pass: polygons only.\<close>

definition out_boundary_wkt ::
  "env \<Rightarrow> osmid \<Rightarrow> string \<times> real \<Rightarrow> keyval \<times> out_state \<Rightarrow> keyval \<times> out_state" where
  "out_boundary_wkt E oid g ts =
     (case g of (wkt, area) \<Rightarrow> (case ts of (rel_tags, s) \<Rightarrow>
        if wkt \<noteq> [] then
          (let s1 = s\<lparr>expire := expire s @ [From_wkt wkt (- oid)]\<rparr>
           in if is_polygon_wkt wkt then
                (let tags1 = (if area > 0 \<and> m_enable_way_area E
                              then add_way_area E area rel_tags else rel_tags)
                 in (tags1, s1\<lparr>tbl_poly := write_way (- oid) tags1 wkt (tbl_poly s1)\<rparr>))
              else (rel_tags, s1))
        else (rel_tags, s)))"

fun out_boundary_wkts ::
  "env \<Rightarrow> osmid \<Rightarrow> (string \<times> real) list \<Rightarrow> keyval \<times> out_state \<Rightarrow> keyval \<times> out_state" where
  "out_boundary_wkts E oid [] ts = ts"
| "out_boundary_wkts E oid (g # gs) ts =
     out_boundary_wkts E oid gs (out_boundary_wkt E oid g ts)"

text \<open>
  \<open>members_superseeded\<close> is an array of \<open>member_count\<close> zeros that the member filter
  writes to: entry \<open>i\<close> is set when the filter's result has a true entry \<open>i\<close>.
\<close>

definition members_superseeded :: "nat \<Rightarrow> bool list \<Rightarrow> bool list" where
  "members_superseeded member_count superseded =
     map (\<lambda>i. i < length superseded \<and> superseded ! i) [0..<member_count]"

text \<open>
  \<open>for (i=0; xcount[i]; i++)\<close>: the loop over the members with their superseded
  entries; it ends at the first member whose node count is zero, or at the terminating
  entry \<open>xcount[member_count] = 0\<close>.
\<close>

fun supersede_members :: "env \<Rightarrow> (member_way \<times> bool) list \<Rightarrow> out_state \<Rightarrow> out_state" where
  "supersede_members E [] s = s"
| "supersede_members E ((m, superseded) # ms) s =
     (if length (mw_nodes m) = 0 then s
      else supersede_members E ms
             (if superseded
              then pgsql_delete_way_from_output E (mw_id m)
                     (s\<lparr>ways_done_tracker := mark (mw_id m) (ways_done_tracker s)\<rparr>)
              else s))"

definition pgsql_out_relation ::
  "env \<Rightarrow> osmid \<Rightarrow> keyval \<Rightarrow> member_way list \<Rightarrow> out_state \<Rightarrow> out_state" where
  "pgsql_out_relation E oid rel_tags xs s =
     (if length xs = 0 then s
      else
        (case filter_rel_member_tags E rel_tags (map mw_tags xs) (map mw_role xs) of
           (filt, superseded, make_boundary, make_polygon, roads) \<Rightarrow>
             if filt then s
             else
               (let wkts = build E oid (map mw_nodes xs) make_polygon
                             (opt_enable_multi (m_options E)) (split_at E)
                in if length wkts = 0 then s
                   else
                     (case out_rel_wkts E oid roads wkts (rel_tags, s) of (tags1, s1) \<Rightarrow>
                        (let s2 = (if make_polygon
                                   then supersede_members E
                                          (zip xs (members_superseeded (length xs) superseded)) s1
                                   else s1)
                         in if make_boundary
                            then snd (out_boundary_wkts E oid
                                        (build E oid (map mw_nodes xs) True
                                           (opt_enable_multi (m_options E)) (split_at E))
                                        (tags1, s2))
                            else s2)))))"

definition pgsql_delete_relation_from_output :: "osmid \<Rightarrow> out_state \<Rightarrow> out_state" where
  "pgsql_delete_relation_from_output osm_id s =
     (let s1 = s\<lparr>tbl_roads := pgsql_pause_copy (tbl_roads s)\<rparr>;
          s2 = s1\<lparr>tbl_line := pgsql_pause_copy (tbl_line s1)\<rparr>;
          s3 = s2\<lparr>tbl_poly := pgsql_pause_copy (tbl_poly s2)\<rparr>;
          s4 = s3\<lparr>tbl_roads := delete_row (- osm_id) (tbl_roads s3)\<rparr>;
          s5 = s4\<lparr>expire := expire s4 @ [From_db t_line (- osm_id)]\<rparr>;
          s6 = (if from_db_result (tbl_line s5) (- osm_id) \<noteq> 0
                then s5\<lparr>tbl_line := delete_row (- osm_id) (tbl_line s5)\<rparr> else s5);
          s7 = s6\<lparr>expire := expire s6 @ [From_db t_poly (- osm_id)]\<rparr>;
          s8 = (if from_db_result (tbl_poly s7) (- osm_id) \<noteq> 0
                then s7\<lparr>tbl_poly := delete_row (- osm_id) (tbl_poly s7)\<rparr> else s7)
      in s8)"

text \<open>
  \<open>for (j = i; j < member_count; j++) if (members[j].id == xid[i]) break;
  xrole[i] = members[j].role\<close>: the role of the first member from index \<open>i\<close> on with
  this id, and a read past the end of \<open>members\<close> when there is none.
\<close>

definition member_role :: "member list \<Rightarrow> nat \<Rightarrow> osmid \<Rightarrow> string option" where
  "member_role members i wid =
     map_option mem_role (find (\<lambda>m. mem_id m = wid) (drop i members))"

definition pgsql_process_relation ::
  "env \<Rightarrow> osmid \<Rightarrow> member list \<Rightarrow> keyval \<Rightarrow> bool \<Rightarrow> out_state \<Rightarrow> out_state" where
  "pgsql_process_relation E oid members tags exists s =
     (let s1 = (if exists then pgsql_delete_relation_from_output oid s else s)
      in if filter_rel_tags E tags then s1
         else
           (let xid2 = map mem_id (filter (\<lambda>m. mem_type m = OSMTYPE_WAY) members);
                ways = ways_get_list E xid2;
                xs = map (\<lambda>(i, (wid, wtags, wnodes)).
                            \<lparr>mw_id = wid, mw_tags = wtags, mw_nodes = wnodes,
                             mw_role = member_role members i wid\<rparr>)
                       (zip [0..<length ways] ways)
            in pgsql_out_relation E oid tags xs s1))"

text \<open>\<open>getItem(tags, "type")\<close>: the value of the first item with this key.\<close>

definition relation_add ::
  "env \<Rightarrow> osmid \<Rightarrow> member list \<Rightarrow> keyval \<Rightarrow> out_state \<Rightarrow> out_state" where
  "relation_add E oid members tags s =
     (case map_of tags ''type'' of
        None \<Rightarrow> s
      | Some type \<Rightarrow>
          if type \<noteq> ''route'' \<and> type \<noteq> ''multipolygon'' \<and> type \<noteq> ''boundary'' then s
          else pgsql_process_relation E oid members tags False s)"

subsection \<open>The iteration callbacks (\<open>way_cb_func\<close>, \<open>rel_cb_func\<close>)\<close>

text \<open>
  A callback object is its cursor \<open>m_next_internal_id\<close>; it works on the state of the
  output object it points to, so the functions below take and return the pair of both.
  The constructor pops the first pending id.
\<close>

definition way_cb_func :: "out_state \<Rightarrow> osmid \<times> out_state" where
  "way_cb_func s =
     (case pop_mark (ways_pending_tracker s) of
        (n, tr) \<Rightarrow> (n, s\<lparr>ways_pending_tracker := tr\<rparr>))"

text \<open>What the body of the loop of \<open>run_internal_until\<close> does before it pops the next id.\<close>

definition way_run_internal_step :: "env \<Rightarrow> bool \<Rightarrow> osmid \<Rightarrow> out_state \<Rightarrow> out_state" where
  "way_run_internal_step E exists next_id s =
     (case ways_get E next_id of
        Some (tags_int, nodes_int) \<Rightarrow>
          if \<not> is_marked next_id (ways_done_tracker s)
          then pgsql_out_way E next_id tags_int nodes_int exists s
          else s
      | None \<Rightarrow> s)"

text \<open>
  \<open>while (m_next_internal_id < id)\<close>. An \<open>osmid_t\<close> is at most \<open>osmid_max\<close>, so in the
  source the test implies \<open>m_next_internal_id < osmid_max\<close>; the second conjunct writes
  this bound of the type out for the unbounded integers used here.
\<close>

function way_run_internal_until ::
  "env \<Rightarrow> osmid \<Rightarrow> bool \<Rightarrow> osmid \<times> out_state \<Rightarrow> osmid \<times> out_state" where
  "way_run_internal_until E oid exists (next_id, s) =
     (if next_id < oid \<and> next_id < osmid_max then
        (let s1 = way_run_internal_step E exists next_id s
         in way_run_internal_until E oid exists
              (case pop_mark (ways_pending_tracker s1) of
                 (n, tr) \<Rightarrow> (n, s1\<lparr>ways_pending_tracker := tr\<rparr>)))
      else (next_id, s))"
  by pat_completeness auto
termination
proof -
  have del: "ways_pending_tracker (pgsql_delete_way_from_output E oid s) = ways_pending_tracker s"
    for E oid s
    by (simp add: pgsql_delete_way_from_output_def Let_def)
  have wkt: "ways_pending_tracker (snd (out_way_wkt E oid nodes roads g ts))
      = ways_pending_tracker (snd ts)" for E oid nodes roads g ts
    by (simp add: out_way_wkt_def Let_def split: prod.splits)
  have wkts: "ways_pending_tracker (snd (out_way_wkts E oid nodes roads gs ts))
      = ways_pending_tracker (snd ts)" for E oid nodes roads gs ts
    by (induction gs arbitrary: ts) (simp_all add: wkt)
  have out: "ways_pending_tracker (pgsql_out_way E oid tags nodes exists s)
      = ways_pending_tracker s" for E oid tags nodes exists s
    by (simp add: pgsql_out_way_def Let_def del wkts split: prod.splits)
  have step: "ways_pending_tracker (way_run_internal_step E exists n s) = ways_pending_tracker s"
    for E exists n s
    by (simp add: way_run_internal_step_def out split: option.splits prod.splits)
  have le: "length (removeAll x tr) \<le> length tr" for x :: osmid and tr
    by (simp add: removeAll_filter_not_eq)
  have pop: "length (removeAll (Min (set tr)) tr) < length tr" if "tr \<noteq> []" for tr :: id_tracker
  proof -
    have "Min (set tr) \<in> set tr" using that by simp
    then show ?thesis
      by (simp add: length_removeAll_less)
  qed
  show ?thesis
    apply (relation "measure (\<lambda>(E, oid, exists, next_id, s).
        2 * length (ways_pending_tracker s) + (if next_id < osmid_max then 1 else 0))")
     apply simp
    apply (simp add: step)
    using pop apply (auto simp add: pop_mark_def)
    subgoal for oid next_id s
      using le [of "Min (set (ways_pending_tracker s))" "ways_pending_tracker s"] by linarith
    done
qed

declare way_run_internal_until.simps [simp del]

definition way_cb_call ::
  "env \<Rightarrow> osmid \<times> keyval \<times> osmNode list \<times> bool \<Rightarrow> osmid \<times> out_state \<Rightarrow> osmid \<times> out_state" where
  "way_cb_call E a c =
     (case a of (oid, tags, nodes, exists) \<Rightarrow>
        (case (if fst c < oid then way_run_internal_until E oid exists c else c) of
           (n1, s1) \<Rightarrow>
             (case (if n1 = oid
                    then (case pop_mark (ways_pending_tracker s1) of
                            (n, tr) \<Rightarrow> (n, s1\<lparr>ways_pending_tracker := tr\<rparr>))
                    else (n1, s1)) of
                (n2, s2) \<Rightarrow>
                  (n2, if is_marked oid (ways_done_tracker s2) then s2
                       else pgsql_out_way E oid tags nodes exists s2))))"

definition way_cb_finish :: "env \<Rightarrow> bool \<Rightarrow> osmid \<times> out_state \<Rightarrow> osmid \<times> out_state" where
  "way_cb_finish E exists c = way_run_internal_until E osmid_max exists c"

definition rel_cb_func :: "out_state \<Rightarrow> osmid \<times> out_state" where
  "rel_cb_func s =
     (case pop_mark (rels_pending_tracker s) of
        (n, tr) \<Rightarrow> (n, s\<lparr>rels_pending_tracker := tr\<rparr>))"

definition rel_run_internal_step :: "env \<Rightarrow> bool \<Rightarrow> osmid \<Rightarrow> out_state \<Rightarrow> out_state" where
  "rel_run_internal_step E exists next_id s =
     (case relations_get E next_id of
        Some (members_int, tags_int) \<Rightarrow>
          pgsql_process_relation E next_id members_int tags_int exists s
      | None \<Rightarrow> s)"

function rel_run_internal_until ::
  "env \<Rightarrow> osmid \<Rightarrow> bool \<Rightarrow> osmid \<times> out_state \<Rightarrow> osmid \<times> out_state" where
  "rel_run_internal_until E oid exists (next_id, s) =
     (if next_id < oid \<and> next_id < osmid_max then
        (let s1 = rel_run_internal_step E exists next_id s
         in rel_run_internal_until E oid exists
              (case pop_mark (rels_pending_tracker s1) of
                 (n, tr) \<Rightarrow> (n, s1\<lparr>rels_pending_tracker := tr\<rparr>)))
      else (next_id, s))"
  by pat_completeness auto
termination
proof -
  have del: "rels_pending_tracker (pgsql_delete_way_from_output E oid s) = rels_pending_tracker s"
    for E oid s
    by (simp add: pgsql_delete_way_from_output_def Let_def)
  have delr: "rels_pending_tracker (pgsql_delete_relation_from_output oid s)
      = rels_pending_tracker s" for oid s
    by (simp add: pgsql_delete_relation_from_output_def Let_def)
  have wkt: "rels_pending_tracker (snd (out_rel_wkt E oid roads g ts))
      = rels_pending_tracker (snd ts)" for E oid roads g ts
    by (simp add: out_rel_wkt_def Let_def split: prod.splits)
  have wkts: "rels_pending_tracker (snd (out_rel_wkts E oid roads gs ts))
      = rels_pending_tracker (snd ts)" for E oid roads gs ts
    by (induction gs arbitrary: ts) (simp_all add: wkt)
  have bwkt: "rels_pending_tracker (snd (out_boundary_wkt E oid g ts))
      = rels_pending_tracker (snd ts)" for E oid g ts
    by (simp add: out_boundary_wkt_def Let_def split: prod.splits)
  have bwkts: "rels_pending_tracker (snd (out_boundary_wkts E oid gs ts))
      = rels_pending_tracker (snd ts)" for E oid gs ts
    by (induction gs arbitrary: ts) (simp_all add: bwkt)
  have sup: "rels_pending_tracker (supersede_members E ms s) = rels_pending_tracker s"
    for E ms s
    by (induction E ms s rule: supersede_members.induct) (simp_all add: del)
  have rel: "rels_pending_tracker (pgsql_out_relation E oid tags xs s) = rels_pending_tracker s"
    for E oid tags xs s
  proof -
    have w: "rels_pending_tracker s' = rels_pending_tracker s"
      if "out_rel_wkts E oid roads gs (tags, s) = (t', s')" for roads gs t' s'
      using wkts [of E oid roads gs "(tags, s)"] that by simp
    show ?thesis
      by (auto simp add: pgsql_out_relation_def Let_def bwkts sup split: prod.splits dest: w)
  qed
  have "proc": "rels_pending_tracker (pgsql_process_relation E oid members tags exists s)
      = rels_pending_tracker s" for E oid members tags exists s
    by (simp add: pgsql_process_relation_def Let_def rel delr)
  have step: "rels_pending_tracker (rel_run_internal_step E exists n s) = rels_pending_tracker s"
    for E exists n s
    by (simp add: rel_run_internal_step_def "proc" split: option.splits prod.splits)
  have le: "length (removeAll x tr) \<le> length tr" for x :: osmid and tr
    by (simp add: removeAll_filter_not_eq)
  have pop: "length (removeAll (Min (set tr)) tr) < length tr" if "tr \<noteq> []" for tr :: id_tracker
  proof -
    have "Min (set tr) \<in> set tr" using that by simp
    then show ?thesis
      by (simp add: length_removeAll_less)
  qed
  show ?thesis
    apply (relation "measure (\<lambda>(E, oid, exists, next_id, s).
        2 * length (rels_pending_tracker s) + (if next_id < osmid_max then 1 else 0))")
     apply simp
    apply (simp add: step)
    using pop apply (auto simp add: pop_mark_def)
    subgoal for oid next_id s
      using le [of "Min (set (rels_pending_tracker s))" "rels_pending_tracker s"] by linarith
    done
qed

declare rel_run_internal_until.simps [simp del]

definition rel_cb_call ::
  "env \<Rightarrow> osmid \<times> member list \<times> keyval \<times> bool \<Rightarrow> osmid \<times> out_state \<Rightarrow> osmid \<times> out_state" where
  "rel_cb_call E a c =
     (case a of (oid, mems, rel_tags, exists) \<Rightarrow>
        (case (if fst c < oid then rel_run_internal_until E oid exists c else c) of
           (n1, s1) \<Rightarrow>
             (case (if n1 = oid
                    then (case pop_mark (rels_pending_tracker s1) of
                            (n, tr) \<Rightarrow> (n, s1\<lparr>rels_pending_tracker := tr\<rparr>))
                    else (n1, s1)) of
                (n2, s2) \<Rightarrow> (n2, pgsql_process_relation E oid mems rel_tags exists s2))))"

definition rel_cb_finish :: "env \<Rightarrow> bool \<Rightarrow> osmid \<times> out_state \<Rightarrow> osmid \<times> out_state" where
  "rel_cb_finish E exists c = rel_run_internal_until E osmid_max exists c"

text \<open>
  Modelled from the spec: the host's two deferred-iteration passes (the callers of
  \<open>way_callback\<close> and \<open>relation_callback\<close> are absent). A pass constructs the callback
  object, calls it once for each upstream object, in the order given, and ends with
  \<open>finish\<close>.
\<close>

definition iterate_ways ::
  "env \<Rightarrow> (osmid \<times> keyval \<times> osmNode list \<times> bool) list \<Rightarrow> bool \<Rightarrow> out_state
     \<Rightarrow> osmid \<times> out_state" where
  "iterate_ways E upstream exists s =
     way_cb_finish E exists (fold (way_cb_call E) upstream (way_cb_func s))"

definition iterate_relations ::
  "env \<Rightarrow> (osmid \<times> member list \<times> keyval \<times> bool) list \<Rightarrow> bool \<Rightarrow> out_state
     \<Rightarrow> osmid \<times> out_state" where
  "iterate_relations E upstream exists s =
     rel_cb_finish E exists (fold (rel_cb_call E) upstream (rel_cb_func s))"

subsection \<open>Notions used to state the properties\<close>

text \<open>The id and the geometry of each row of a table, in the order written.\<close>

definition id_geoms :: "table \<Rightarrow> (osmid \<times> geometry) list" where
  "id_geoms t = map (\<lambda>r. (row_id r, row_geom r)) (tbl_rows t)"

text \<open>
  Of the geometries that the builder returned, the non-empty WKTs that begin with
  POLYGON or MULTIPOLYGON, and the other non-empty WKTs.
\<close>

definition poly_wkts :: "(string \<times> real) list \<Rightarrow> string list" where
  "poly_wkts gs = filter (\<lambda>w. w \<noteq> [] \<and> is_polygon_wkt w) (map fst gs)"

definition line_wkts :: "(string \<times> real) list \<Rightarrow> string list" where
  "line_wkts gs = filter (\<lambda>w. w \<noteq> [] \<and> \<not> is_polygon_wkt w) (map fst gs)"

text \<open>
  The ids of the members that the loop over the members reaches with a set superseded
  entry: those before the first member without nodes.
\<close>

definition superseded_ids :: "(member_way \<times> bool) list \<Rightarrow> osmid list" where
  "superseded_ids ms =
     map (\<lambda>p. mw_id (fst p)) (filter snd (takeWhile (\<lambda>p. mw_nodes (fst p) \<noteq> []) ms))"

subsection \<open>A configuration for the examples\<close>

text \<open>
  A small instance of the collaborators: ways are kept when they have a tag, are
  polygons when tagged \<open>building\<close> or \<open>natural\<close> and roads when tagged \<open>highway\<close>; a
  member way is superseded when its tags are those of the relation without \<open>type\<close>.
\<close>

definition example_ring :: "osmNode list" where
  "example_ring = [OsmNode 0 0, OsmNode 0 1, OsmNode 1 1, OsmNode 0 0]"

definition example_env :: "bool \<Rightarrow> bool \<Rightarrow> env" where
  "example_env slim droptemp =
     \<lparr>m_options = \<lparr>opt_slim = slim, opt_droptemp = droptemp, opt_proj_latlong = True,
                   opt_enable_multi = False\<rparr>,
      m_enable_way_area = True,
      filter_node_tags = (\<lambda>tags. tags = []),
      filter_way_tags = (\<lambda>tags. (tags = [],
         map_of tags ''building'' \<noteq> None \<or> map_of tags ''natural'' \<noteq> None,
         map_of tags ''highway'' \<noteq> None)),
      filter_rel_tags = (\<lambda>tags. tags = []),
      filter_rel_member_tags = (\<lambda>rel_tags mtags roles.
         (False, map (\<lambda>t. t = filter (\<lambda>kv. fst kv \<noteq> ''type'') rel_tags) mtags,
          map_of rel_tags ''type'' = Some ''boundary'',
          map_of rel_tags ''type'' = Some ''multipolygon'', False)),
      get_wkt_split = (\<lambda>nodes polygon split.
         if length nodes < 2 then []
         else if polygon then [(''POLYGON((0 0,0 1,1 1,0 0))'', 1 / 2)]
         else [(''LINESTRING(0 0,1 1)'', 0)]),
      build = (\<lambda>oid nodes make_polygon multi split.
         if make_polygon then [(''MULTIPOLYGON(((0 0,0 1,1 1,0 0)))'', 1 / 2)]
         else [(''LINESTRING(0 0,1 1)'', 0)]),
      nodes_get_list = map (\<lambda>i. OsmNode (of_int i) (of_int i)),
      ways_get = (\<lambda>oid. if oid = 7 \<or> oid = 10 \<or> oid = 11
                         then Some ([(''natural'', ''water'')], example_ring) else None),
      ways_get_list = map (\<lambda>i. (i, [(''natural'', ''water'')], example_ring)),
      relations_get = (\<lambda>oid. None),
      relations_using_way = (\<lambda>oid. []),
      format_g = (\<lambda>a. ''0.5'')\<rparr>"

definition empty_table :: table where
  "empty_table = \<lparr>tbl_rows = [], tbl_copying = True\<rparr>"

definition example_state :: out_state where
  "example_state =
     \<lparr>tbl_point = empty_table,
      tbl_line = \<lparr>tbl_rows = [\<lparr>row_id = 10, row_tags = [(''natural'', ''water'')],
                                row_geom = Wkt ''LINESTRING(0 0,1 1)''\<rparr>],
                  tbl_copying = True\<rparr>,
      tbl_poly = empty_table, tbl_roads = empty_table,
      ways_pending_tracker = [], ways_done_tracker = [], rels_pending_tracker = [],
      expire = []\<rparr>"

text \<open>
  Every row of the table \<open>t'\<close> is a row of \<open>t\<close> or satisfies \<open>P\<close>; and the same for
  each of the four tables of two states: the rows added between \<open>s\<close> and \<open>s'\<close> all
  satisfy \<open>P\<close>.
\<close>

definition table_rows_sat :: "(row \<Rightarrow> bool) \<Rightarrow> table \<Rightarrow> table \<Rightarrow> bool" where
  "table_rows_sat P t t' = (\<forall>r \<in> set (tbl_rows t'). r \<in> set (tbl_rows t) \<or> P r)"

definition rows_added_sat :: "(row \<Rightarrow> bool) \<Rightarrow> out_state \<Rightarrow> out_state \<Rightarrow> bool" where
  "rows_added_sat P s s' =
     (table_rows_sat P (tbl_point s) (tbl_point s') \<and> table_rows_sat P (tbl_line s) (tbl_line s')
      \<and> table_rows_sat P (tbl_poly s) (tbl_poly s')
      \<and> table_rows_sat P (tbl_roads s) (tbl_roads s'))"

definition example_members :: "member list" where
  "example_members =
     [\<lparr>mem_type = OSMTYPE_WAY, mem_id = 10, mem_role = ''outer''\<rparr>,
      \<lparr>mem_type = OSMTYPE_WAY, mem_id = 11, mem_role = ''inner''\<rparr>]"

definition example_rel_tags :: keyval where
  "example_rel_tags = [(''type'', ''multipolygon''), (''natural'', ''water'')]"

text \<open>
  The export list has a rule named \<open>way_area\<close> whose flag set is exactly DELETE.
\<close>

definition way_area_deleted :: "export_list \<Rightarrow> bool" where
  "way_area_deleted el =
     (\<exists>ti \<in> set (el_node el) \<union> set (el_way el).
        ti_name ti = ''way_area'' \<and> ti_flags ti = {FLAG_DELETE})"

text \<open>The ids of the members whose entry in \<open>members_superseeded\<close> is set.\<close>

definition flagged_ids :: "member_way list \<Rightarrow> bool list \<Rightarrow> osmid list" where
  "flagged_ids xs superseded =
     map (\<lambda>p. mw_id (fst p))
       (filter snd (zip xs (members_superseeded (length xs) superseded)))"

definition example_member_ways :: "member_way list" where
  "example_member_ways =
     [\<lparr>mw_id = 10, mw_tags = [(''natural'', ''water'')], mw_nodes = example_ring,
       mw_role = Some ''outer''\<rparr>,
      \<lparr>mw_id = 11, mw_tags = [(''natural'', ''water'')], mw_nodes = example_ring,
       mw_role = Some ''inner''\<rparr>]"

subsection \<open>The merged traversal, as a list of actions\<close>

text \<open>
  What a pass does to an object: a deferred id is fetched from the middle and processed
  with the flag \<open>exists\<close> of the call that replays it; an upstream object is processed
  with the data and the flag that the callback received.
\<close>

datatype ('a, 'b) action = Deferred osmid bool | Upstream osmid 'a 'b bool

fun action_id :: "('a, 'b) action \<Rightarrow> osmid" where
  "action_id (Deferred x ex) = x"
| "action_id (Upstream u a b ex) = u"

text \<open>
  The merge of the deferred ids \<open>R\<close> (ascending) with the upstream calls, in the words of
  the spec: before an upstream id \<open>u\<close> come the deferred ids below \<open>u\<close>; a deferred id
  equal to \<open>u\<close> is left to the upstream call; \<open>finish\<close> replays what is left.
\<close>

fun plan :: "osmid list \<Rightarrow> (osmid \<times> 'a \<times> 'b \<times> bool) list \<Rightarrow> bool \<Rightarrow> ('a, 'b) action list" where
  "plan R [] fin = map (\<lambda>x. Deferred x fin) R"
| "plan R ((u, a, b, ex) # U) fin =
     map (\<lambda>x. Deferred x ex) (takeWhile (\<lambda>x. x < u) R) @ [Upstream u a b ex]
     @ plan (dropWhile (\<lambda>x. x \<le> u) R) U fin"

text \<open>
  What the two passes do for one action, in the words of the spec. A deferred way is
  fetched from the middle (an id that the middle misses is dropped) and goes through
  way processing, with the flag \<open>exists\<close> of the call that replays it, unless
  \<open>ways_done\<close> marks it. An upstream way goes through way processing unless
  \<open>ways_done\<close> marks it. A deferred relation is fetched from the middle and goes
  through relation processing; an upstream relation goes through relation processing.
\<close>

fun way_exec :: "env \<Rightarrow> (keyval, osmNode list) action \<Rightarrow> out_state \<Rightarrow> out_state" where
  "way_exec E (Deferred x ex) s =
     (case ways_get E x of
        None \<Rightarrow> s
      | Some (tags, nodes) \<Rightarrow>
          if is_marked x (ways_done_tracker s) then s
          else pgsql_out_way E x tags nodes ex s)"
| "way_exec E (Upstream u tags nodes ex) s =
     (if is_marked u (ways_done_tracker s) then s else pgsql_out_way E u tags nodes ex s)"

fun rel_exec :: "env \<Rightarrow> (member list, keyval) action \<Rightarrow> out_state \<Rightarrow> out_state" where
  "rel_exec E (Deferred x ex) s =
     (case relations_get E x of
        None \<Rightarrow> s
      | Some (mems, rel_tags) \<Rightarrow> pgsql_process_relation E x mems rel_tags ex s)"
| "rel_exec E (Upstream u mems rel_tags ex) s = pgsql_process_relation E u mems rel_tags ex s"

text \<open>The cursor for the deferred ids \<open>R\<close> that are left: the first of them, or the sentinel.\<close>

definition next_or_max :: "osmid list \<Rightarrow> osmid" where
  "next_or_max R = (case R of [] \<Rightarrow> osmid_max | r # _ \<Rightarrow> r)"

text \<open>The rows of a table that bear the id \<open>x\<close>, in the order written.\<close>

definition rows_of :: "osmid \<Rightarrow> table \<Rightarrow> row list" where
  "rows_of x t = filter (\<lambda>r. row_id r = x) (tbl_rows t)"

text \<open>
  Between \<open>s\<close> and \<open>s'\<close> the \<open>ways_done\<close> tracker is unchanged and no table gained or
  lost a row that bears the id \<open>x\<close>.
\<close>

definition keeps_rows_of :: "osmid \<Rightarrow> out_state \<Rightarrow> out_state \<Rightarrow> bool" where
  "keeps_rows_of x s s' =
     (ways_done_tracker s' = ways_done_tracker s
      \<and> rows_of x (tbl_point s') = rows_of x (tbl_point s)
      \<and> rows_of x (tbl_line s') = rows_of x (tbl_line s)
      \<and> rows_of x (tbl_poly s') = rows_of x (tbl_poly s)
      \<and> rows_of x (tbl_roads s') = rows_of x (tbl_roads s))"

text \<open>
  The same configuration with a middle whose ways are pedestrian highways (linear, and
  roads), and a multipolygon relation with the tags of these ways.
\<close>

definition example_env_highway :: env where
  "example_env_highway =
     (example_env True False)
       \<lparr>ways_get_list := map (\<lambda>i. (i, [(''highway'', ''pedestrian'')], example_ring))\<rparr>"

definition example_highway_rel_tags :: keyval where
  "example_highway_rel_tags = [(''type'', ''multipolygon''), (''highway'', ''pedestrian'')]"

text \<open>
  None of the geometries \<open>gs\<close> makes the loops append a \<open>way_area\<close> item to the tag
  list: none is a polygon with an area above zero while \<open>m_enable_way_area\<close> is true.
\<close>

definition none_injected :: "env \<Rightarrow> (string \<times> real) list \<Rightarrow> bool" where
  "none_injected E gs =
     (\<forall>g \<in> set gs. \<not> (is_polygon_wkt (fst g) \<and> 0 < snd g \<and> m_enable_way_area E))"

text \<open>
  A boundary relation with the tags of its member ways, and a builder that returns two
  polygons for a way, the second one with the area zero.
\<close>

definition example_boundary_tags :: keyval where
  "example_boundary_tags = [(''type'', ''boundary''), (''natural'', ''water'')]"

definition example_env_two_polygons :: env where
  "example_env_two_polygons =
     (example_env True False)
       \<lparr>get_wkt_split := (\<lambda>nodes polygon split.
          [(''POLYGON((0 0,0 1,1 1,0 0))'', 1 / 2), (''POLYGON((2 2,2 2,2 2,2 2))'', 0)])\<rparr>"

section \<open>Properties of the style file reader\<close>

lemma style_line_fatal_iff:
  "style_line b ps = Inl e \<longleftrightarrow>
     (too_few_fields b \<and> e = TooFewFields (Suc (ps_lineno ps)) (int (length (line_fields b))))
     \<or> (wildcard_non_delete b ps \<and> e = WildcardNonDelete (line_fields b ! 1))
     \<or> (no_node_or_way b \<and> \<not> wildcard_non_delete b ps \<and> e = WeirdLine (Suc (ps_lineno ps)))"
proof -
  let ?n = "length (line_fields b)"
  consider "?n = 0" | "0 < ?n" "?n < 3" | "3 \<le> ?n" by linarith
  then show ?thesis
  proof cases
    case 1
    then show ?thesis
      by (simp add: style_line_def Let_def sscanf_result_def too_few_fields_def
          wildcard_non_delete_def no_node_or_way_def line_fields_def)
  next
    case 2
    then show ?thesis
      by (auto simp add: style_line_def Let_def sscanf_result_def too_few_fields_def
          wildcard_non_delete_def no_node_or_way_def line_fields_def)
  next
    case 3
    then have f: "line_fields b \<noteq> []" "\<not> int ?n < 3" "\<not> too_few_fields b"
      by (auto simp add: too_few_fields_def)
    show ?thesis
      using 3 f(1,2) unfolding style_line_def Let_def sscanf_result_def
        wildcard_non_delete_def no_node_or_way_def line_flags_def too_few_fields_def
        line_fields_def [symmetric]
      by (auto split: prod.splits simp add: fst_def)
  qed
qed

lemma style_line_lineno:
  "style_line b ps = Inr ps' \<Longrightarrow> ps_lineno ps' = Suc (ps_lineno ps)"
  unfolding style_line_def Let_def
  by (auto split: if_splits prod.splits)

lemma style_lines_lineno:
  "style_lines bs ps = Inr ps' \<Longrightarrow> ps_lineno ps' = ps_lineno ps + length bs"
proof (induction bs arbitrary: ps)
  case Nil
  then show ?case by simp
next
  case (Cons b bs)
  then show ?case
    by (auto split: sum.splits dest: style_line_lineno)
qed

lemma style_lines_append:
  "style_lines (pre @ post) ps =
     (case style_lines pre ps of Inl e \<Rightarrow> Inl e | Inr ps' \<Rightarrow> style_lines post ps')"
  by (induction pre arbitrary: ps) (auto split: sum.splits)

lemma style_lines_fatal_iff:
  "style_lines bs ps = Inl e \<longleftrightarrow>
     (\<exists>pre b post ps'. bs = pre @ b # post \<and> style_lines pre ps = Inr ps'
        \<and> style_line b ps' = Inl e)"
proof (induction bs arbitrary: ps)
  case Nil
  then show ?case by simp
next
  case (Cons a bs)
  show ?case
  proof (cases "style_line a ps")
    case (Inl e')
    show ?thesis
    proof
      assume "style_lines (a # bs) ps = Inl e"
      with Inl have "e' = e" by simp
      with Inl have "a # bs = [] @ a # bs \<and> style_lines [] ps = Inr ps \<and> style_line a ps = Inl e"
        by simp
      then show "\<exists>pre b post ps'. a # bs = pre @ b # post \<and> style_lines pre ps = Inr ps'
          \<and> style_line b ps' = Inl e"
        by blast
    next
      assume "\<exists>pre b post ps'. a # bs = pre @ b # post \<and> style_lines pre ps = Inr ps'
          \<and> style_line b ps' = Inl e"
      then obtain pre b post ps' where d: "a # bs = pre @ b # post"
        and p: "style_lines pre ps = Inr ps'" and l: "style_line b ps' = Inl e"
        by blast
      have "pre = []"
      proof (cases pre)
        case Nil
        then show ?thesis .
      next
        case (Cons c cs)
        with d have "c = a" by simp
        with Cons p Inl show ?thesis by simp
      qed
      with d p l Inl show "style_lines (a # bs) ps = Inl e" by simp
    qed
  next
    case (Inr ps1)
    have "style_lines (a # bs) ps = Inl e \<longleftrightarrow> style_lines bs ps1 = Inl e"
      using Inr by simp
    also have "\<dots> \<longleftrightarrow> (\<exists>pre b post ps'. bs = pre @ b # post \<and> style_lines pre ps1 = Inr ps'
        \<and> style_line b ps' = Inl e)"
      by (rule Cons.IH)
    also have "\<dots> \<longleftrightarrow> (\<exists>pre b post ps'. a # bs = pre @ b # post \<and> style_lines pre ps = Inr ps'
        \<and> style_line b ps' = Inl e)"
    proof
      assume "\<exists>pre b post ps'. bs = pre @ b # post \<and> style_lines pre ps1 = Inr ps'
        \<and> style_line b ps' = Inl e"
      then obtain pre b post ps' where "bs = pre @ b # post" "style_lines pre ps1 = Inr ps'"
        "style_line b ps' = Inl e" by blast
      with Inr have "a # bs = (a # pre) @ b # post \<and> style_lines (a # pre) ps = Inr ps'
        \<and> style_line b ps' = Inl e" by simp
      then show "\<exists>pre b post ps'. a # bs = pre @ b # post \<and> style_lines pre ps = Inr ps'
        \<and> style_line b ps' = Inl e" by blast
    next
      assume "\<exists>pre b post ps'. a # bs = pre @ b # post \<and> style_lines pre ps = Inr ps'
        \<and> style_line b ps' = Inl e"
      then obtain pre b post ps' where d: "a # bs = pre @ b # post"
        and p: "style_lines pre ps = Inr ps'" and l: "style_line b ps' = Inl e"
        by blast
      show "\<exists>pre b post ps'. bs = pre @ b # post \<and> style_lines pre ps1 = Inr ps'
        \<and> style_line b ps' = Inl e"
      proof (cases pre)
        case Nil
        with d l p Inr show ?thesis by simp
      next
        case (Cons c cs)
        with d have "c = a" "bs = cs @ b # post" by simp_all
        with Cons p Inr l show ?thesis by auto
      qed
    qed
    finally show ?thesis .
  qed
qed

text \<open>
  Claim C9. A style line with three or more fields and no wildcard violation whose OSM
  type field contains neither "node" nor "way" is fatal: when the lines before it were
  read without a fatal error, the reader ends with the "Weird style line" diagnostic,
  which carries the number of that line, whatever follows the line in the file.
\<close>

theorem weird_style_line_fatal:
  assumes "file_buffers contents = pre @ b # post"
    and "style_lines pre (init_parse_state flags0 exlist) = Inr ps"
    and "3 \<le> length (line_fields b)"
    and "\<not> wildcard_non_delete b ps"
    and "\<not> strstr (line_fields b ! 0) ''node''"
    and "\<not> strstr (line_fields b ! 0) ''way''"
  shows "read_style_file flags0 (Some contents) ferr exlist = Inl (WeirdLine (Suc (length pre)))"
proof -
  have n: "ps_lineno ps = length pre"
    using style_lines_lineno [OF assms(2)] by (simp add: init_parse_state_def)
  have "no_node_or_way b"
    using assms(3,5,6) by (simp add: no_node_or_way_def)
  then have "style_line b ps = Inl (WeirdLine (Suc (length pre)))"
    using assms(4) n by (simp add: style_line_fatal_iff)
  then have "style_lines (pre @ b # post) (init_parse_state flags0 exlist)
      = Inl (WeirdLine (Suc (length pre)))"
    using assms(2) by (simp add: style_lines_append)
  then show ?thesis
    using assms(1) by (simp add: read_style_file_def)
qed

theorem weird_style_line_fatal_witness:
  "read_style_file [] (Some (''node a text linear'' @ [CHR 0x0A] @ ''relation b text linear''))
     False new_export_list = Inl (WeirdLine 2)"
proof -
  let ?l1 = "''node a text linear'' @ [CHR 0x0A]"
  let ?l2 = "''relation b text linear''"
  let ?ps = "\<lparr>ps_exlist = \<lparr>el_node = [\<lparr>ti_name = ''a'', ti_type = ''text'',
                  ti_flags = {FLAG_LINEAR}\<rparr>], el_way = []\<rparr>,
              ps_lineno = 1, ps_num_read = 1, ps_enable_way_area = True,
              ps_flags = ''linear'', ps_warnings = []\<rparr>"
  have 1: "file_buffers (?l1 @ ?l2) = [?l1] @ ?l2 # []" by code_simp
  have 2: "style_lines [?l1] (init_parse_state [] new_export_list) = Inr ?ps" by code_simp
  have 3: "3 \<le> length (line_fields ?l2)" by code_simp
  have 4: "\<not> wildcard_non_delete ?l2 ?ps" by code_simp
  have 5: "\<not> strstr (line_fields ?l2 ! 0) ''node''" by code_simp
  have 6: "\<not> strstr (line_fields ?l2 ! 0) ''way''" by code_simp
  show ?thesis
    using weird_style_line_fatal [OF 1 2 3 4 5 6, of False] by simp
qed

lemma scan_flags_unknown:
  assumes "lookup_flag str = None"
  shows "fst (scan_flags n (xs @ str # ys)) = fst (scan_flags n (xs @ ys))
    \<and> (str, n) \<in> set (snd (scan_flags n (xs @ str # ys)))"
  using assms by (induction xs) (auto split: prod.splits option.splits)

lemma style_lines_fatal_cases:
  "style_lines bufs (init_parse_state flags0 exlist) = Inl e \<longleftrightarrow>
     (\<exists>pre b post ps. bufs = pre @ b # post
        \<and> style_lines pre (init_parse_state flags0 exlist) = Inr ps
        \<and> (too_few_fields b
             \<and> e = TooFewFields (Suc (length pre)) (int (length (line_fields b)))
           \<or> wildcard_non_delete b ps \<and> e = WildcardNonDelete (line_fields b ! 1)
           \<or> no_node_or_way b \<and> \<not> wildcard_non_delete b ps
             \<and> e = WeirdLine (Suc (length pre))))"
  (is "?L \<longleftrightarrow> ?R")
proof
  assume ?L
  then obtain pre b post ps where d: "bufs = pre @ b # post"
    and p: "style_lines pre (init_parse_state flags0 exlist) = Inr ps"
    and l: "style_line b ps = Inl e"
    unfolding style_lines_fatal_iff by blast
  have n: "ps_lineno ps = length pre"
    using style_lines_lineno [OF p] by (simp add: init_parse_state_def)
  from l have "too_few_fields b
             \<and> e = TooFewFields (Suc (length pre)) (int (length (line_fields b)))
           \<or> wildcard_non_delete b ps \<and> e = WildcardNonDelete (line_fields b ! 1)
           \<or> no_node_or_way b \<and> \<not> wildcard_non_delete b ps
             \<and> e = WeirdLine (Suc (length pre))"
    unfolding style_line_fatal_iff n .
  with d p show ?R by blast
next
  assume ?R
  then obtain pre b post ps where d: "bufs = pre @ b # post"
    and p: "style_lines pre (init_parse_state flags0 exlist) = Inr ps"
    and c: "too_few_fields b
             \<and> e = TooFewFields (Suc (length pre)) (int (length (line_fields b)))
           \<or> wildcard_non_delete b ps \<and> e = WildcardNonDelete (line_fields b ! 1)
           \<or> no_node_or_way b \<and> \<not> wildcard_non_delete b ps
             \<and> e = WeirdLine (Suc (length pre))"
    by blast
  have n: "ps_lineno ps = length pre"
    using style_lines_lineno [OF p] by (simp add: init_parse_state_def)
  from c have "style_line b ps = Inl e"
    unfolding style_line_fatal_iff n .
  with d p show ?L
    unfolding style_lines_fatal_iff by blast
qed

text \<open>
  Claim C7, as amended. \<open>read_style_file\<close> ends the import exactly in these cases: the
  file cannot be opened; the first line that is not read cleanly is a non-blank line
  with fewer than three fields, or a rule whose name has \<open>?\<close> or \<open>*\<close> in it while its
  flag set is not exactly DELETE, or a rule whose OSM type field has neither "node" nor
  "way" in it; the stream has its error indicator set after the loop; or no valid line
  was read. A flag token that is not in the table changes no flag set and is reported
  on stderr with its line number, so it is never a reason to end the import.
\<close>

theorem read_style_file_fatal_cases:
  "(read_style_file flags0 file ferr exlist = Inl e \<longleftrightarrow>
      (case file of
         None \<Rightarrow> e = CouldntOpen
       | Some contents \<Rightarrow>
           (\<exists>pre b post ps. file_buffers contents = pre @ b # post
               \<and> style_lines pre (init_parse_state flags0 exlist) = Inr ps
               \<and> (too_few_fields b
                    \<and> e = TooFewFields (Suc (length pre)) (int (length (line_fields b)))
                  \<or> wildcard_non_delete b ps \<and> e = WildcardNonDelete (line_fields b ! 1)
                  \<or> no_node_or_way b \<and> \<not> wildcard_non_delete b ps
                    \<and> e = WeirdLine (Suc (length pre))))
            \<or> (\<exists>ps. style_lines (file_buffers contents) (init_parse_state flags0 exlist)
                       = Inr ps
                  \<and> (ferr \<and> e = ReadError
                     \<or> \<not> ferr \<and> ps_num_read ps = 0 \<and> e = NoValidColumns))))
   \<and> (lookup_flag str = None \<longrightarrow>
        fst (scan_flags n (xs @ str # ys)) = fst (scan_flags n (xs @ ys))
        \<and> (str, n) \<in> set (snd (scan_flags n (xs @ str # ys))))"
proof (intro conjI impI)
  show "read_style_file flags0 file ferr exlist = Inl e \<longleftrightarrow>
      (case file of
         None \<Rightarrow> e = CouldntOpen
       | Some contents \<Rightarrow>
           (\<exists>pre b post ps. file_buffers contents = pre @ b # post
               \<and> style_lines pre (init_parse_state flags0 exlist) = Inr ps
               \<and> (too_few_fields b
                    \<and> e = TooFewFields (Suc (length pre)) (int (length (line_fields b)))
                  \<or> wildcard_non_delete b ps \<and> e = WildcardNonDelete (line_fields b ! 1)
                  \<or> no_node_or_way b \<and> \<not> wildcard_non_delete b ps
                    \<and> e = WeirdLine (Suc (length pre))))
            \<or> (\<exists>ps. style_lines (file_buffers contents) (init_parse_state flags0 exlist)
                       = Inr ps
                  \<and> (ferr \<and> e = ReadError
                     \<or> \<not> ferr \<and> ps_num_read ps = 0 \<and> e = NoValidColumns)))"
  proof (cases "file")
    case None
    then show ?thesis by (auto simp add: read_style_file_def)
  next
    case (Some contents)
    show ?thesis
    proof (cases "style_lines (file_buffers contents) (init_parse_state flags0 exlist)")
      case (Inl e')
      have "read_style_file flags0 file ferr exlist = Inl e \<longleftrightarrow>
          style_lines (file_buffers contents) (init_parse_state flags0 exlist) = Inl e"
        using Some Inl by (simp add: read_style_file_def)
      then show ?thesis
        unfolding style_lines_fatal_cases Some using Inl by simp
    next
      case (Inr ps)
      define A where "A \<longleftrightarrow> (\<exists>pre b post ps. file_buffers contents = pre @ b # post
               \<and> style_lines pre (init_parse_state flags0 exlist) = Inr ps
               \<and> (too_few_fields b
                    \<and> e = TooFewFields (Suc (length pre)) (int (length (line_fields b)))
                  \<or> wildcard_non_delete b ps \<and> e = WildcardNonDelete (line_fields b ! 1)
                  \<or> no_node_or_way b \<and> \<not> wildcard_non_delete b ps
                    \<and> e = WeirdLine (Suc (length pre))))"
      define Q where "Q ps' \<longleftrightarrow>
          (ferr \<and> e = ReadError \<or> \<not> ferr \<and> ps_num_read ps' = 0 \<and> e = NoValidColumns)"
        for ps' :: parse_state
      have "style_lines (file_buffers contents) (init_parse_state flags0 exlist) \<noteq> Inl e"
        using Inr by simp
      then have no: "\<not> A"
        unfolding style_lines_fatal_cases A_def .
      have r: "read_style_file flags0 (Some contents) ferr exlist = Inl e \<longleftrightarrow> Q ps"
        using Inr by (auto simp add: read_style_file_def Q_def)
      have q: "(\<exists>ps'. style_lines (file_buffers contents) (init_parse_state flags0 exlist)
                       = Inr ps' \<and> Q ps') \<longleftrightarrow> Q ps"
        unfolding Inr by simp
      have "read_style_file flags0 (Some contents) ferr exlist = Inl e \<longleftrightarrow>
          A \<or> (\<exists>ps'. style_lines (file_buffers contents)
                (init_parse_state flags0 exlist) = Inr ps' \<and> Q ps')"
        unfolding r q using no by simp
      then show ?thesis
        unfolding Some A_def Q_def by (simp only: option.case)
    qed
  qed
next
  assume "lookup_flag str = None"
  then show "fst (scan_flags n (xs @ str # ys)) = fst (scan_flags n (xs @ ys))"
    and "(str, n) \<in> set (snd (scan_flags n (xs @ str # ys)))"
    using scan_flags_unknown by blast+
qed

theorem read_style_file_fatal_cases_witness:
  "read_style_file [] (Some ''way na*me text linear'') False new_export_list
     = Inl (WildcardNonDelete ''na*me'')
   \<and> lookup_flag ''bogus'' = None
   \<and> fst (scan_flags 1 ([''linear''] @ ''bogus'' # [])) = fst (scan_flags 1 ([''linear''] @ []))
   \<and> (''bogus'', 1) \<in> set (snd (scan_flags 1 ([''linear''] @ ''bogus'' # [])))"
proof -
  let ?l = "''way na*me text linear''"
  let ?ps = "init_parse_state [] new_export_list"
  have 1: "file_buffers ?l = [] @ ?l # []" by code_simp
  have 2: "style_lines [] ?ps = Inr ?ps" by simp
  have 3: "wildcard_non_delete ?l ?ps" by code_simp
  have 4: "line_fields ?l ! 1 = ''na*me''" by code_simp
  have 5: "lookup_flag ''bogus'' = None" by code_simp
  have "\<exists>pre b post ps. file_buffers ?l = pre @ b # post
               \<and> style_lines pre ?ps = Inr ps
               \<and> (too_few_fields b
                    \<and> WildcardNonDelete ''na*me''
                      = TooFewFields (Suc (length pre)) (int (length (line_fields b)))
                  \<or> wildcard_non_delete b ps
                    \<and> WildcardNonDelete ''na*me'' = WildcardNonDelete (line_fields b ! 1)
                  \<or> no_node_or_way b \<and> \<not> wildcard_non_delete b ps
                    \<and> WildcardNonDelete ''na*me'' = WeirdLine (Suc (length pre)))"
    apply (rule exI [of _ "[]"])
    apply (rule exI [of _ ?l])
    apply (rule exI [of _ "[]"])
    apply (rule exI [of _ ?ps])
    using 1 2 3 4 apply simp
    done
  then show ?thesis
    using read_style_file_fatal_cases
      [of "[]" "Some ?l" False new_export_list "WildcardNonDelete ''na*me''"
          "''bogus''" 1 "[''linear'']" "[]"] 5
    by simp
qed

text \<open>
  Claim C7 as stated fails: the file below is read up to its second line, which has four
  fields and no wildcard, after a first line that is valid (so one valid line was read),
  and the import still ends, with the "Weird style line" diagnostic.
\<close>

theorem read_style_file_three_cases_counterexample:
  "read_style_file [] (Some (''node a text linear'' @ [CHR 0x0A] @ ''relation b text linear''))
     False new_export_list = Inl (WeirdLine 2)
   \<and> file_buffers (''node a text linear'' @ [CHR 0x0A] @ ''relation b text linear'')
     = [''node a text linear'' @ [CHR 0x0A], ''relation b text linear'']
   \<and> \<not> too_few_fields (''node a text linear'' @ [CHR 0x0A])
   \<and> \<not> too_few_fields ''relation b text linear''
   \<and> \<not> wildcard_non_delete (''node a text linear'' @ [CHR 0x0A])
         (init_parse_state [] new_export_list)
   \<and> map_sum id ps_num_read
         (style_lines [''node a text linear'' @ [CHR 0x0A]] (init_parse_state [] new_export_list))
     = Inr 1
   \<and> \<not> wildcard_non_delete ''relation b text linear''
         \<lparr>ps_exlist = \<lparr>el_node = [\<lparr>ti_name = ''a'', ti_type = ''text'',
                  ti_flags = {FLAG_LINEAR}\<rparr>], el_way = []\<rparr>,
              ps_lineno = 1, ps_num_read = 1, ps_enable_way_area = True,
              ps_flags = ''linear'', ps_warnings = []\<rparr>"
  by (intro conjI; code_simp)

section \<open>Properties of the output stage\<close>

subsection \<open>Deleting a way outside slim mode or in droptemp mode\<close>

lemma delete_way_noop:
  "\<not> opt_slim (m_options E) \<or> opt_droptemp (m_options E)
    \<Longrightarrow> pgsql_delete_way_from_output E oid s = s"
  by (auto simp add: pgsql_delete_way_from_output_def)

lemma supersede_members_noop:
  assumes "\<not> opt_slim (m_options E) \<or> opt_droptemp (m_options E)"
  shows "supersede_members E ms s
    = s\<lparr>ways_done_tracker := rev (superseded_ids ms) @ ways_done_tracker s\<rparr>"
proof (induction ms arbitrary: s)
  case Nil
  show ?case by (simp add: superseded_ids_def)
next
  case (Cons p ms)
  obtain m superseded where p: "p = (m, superseded)" by (cases p)
  show ?case
  proof (cases "mw_nodes m = []")
    case True
    then show ?thesis by (simp add: superseded_ids_def p)
  next
    case False
    show ?thesis
    proof (cases superseded)
      case True
      have "pgsql_delete_way_from_output E (mw_id m)
              (s\<lparr>ways_done_tracker := mark (mw_id m) (ways_done_tracker s)\<rparr>)
            = s\<lparr>ways_done_tracker := mark (mw_id m) (ways_done_tracker s)\<rparr>"
        using assms by (rule delete_way_noop)
      with Cons.IH False True show ?thesis
        by (simp add: superseded_ids_def mark_def p)
    next
      case f: False
      with Cons.IH False show ?thesis
        by (simp add: superseded_ids_def p)
    qed
  qed
qed

text \<open>
  Claim C10. When slim mode is off or droptemp mode is on,
  \<open>pgsql_delete_way_from_output\<close> returns the state as it is: no COPY is paused and no
  row is deleted. So in these modes \<open>way_delete\<close> changes no table (outside slim mode
  it ends the import instead, with "Cannot apply diffs unless in slim mode"), and the
  loop over the superseded members of a relation changes nothing but the
  \<open>ways_done\<close> tracker, where the marks are still recorded.
\<close>

theorem delete_way_without_slim_or_with_droptemp:
  assumes "\<not> opt_slim (m_options E) \<or> opt_droptemp (m_options E)"
  shows "pgsql_delete_way_from_output E oid s = s
    \<and> way_delete E oid s = (if opt_slim (m_options E) then Inr s else Inl CannotApplyDiffs)
    \<and> supersede_members E ms s
        = s\<lparr>ways_done_tracker := rev (superseded_ids ms) @ ways_done_tracker s\<rparr>"
  using assms delete_way_noop [of E oid s] supersede_members_noop [of E ms s]
  by (simp add: way_delete_def)

theorem delete_way_without_slim_or_with_droptemp_witness:
  "pgsql_delete_way_from_output (example_env False False) 10 example_state = example_state
   \<and> way_delete (example_env False False) 10 example_state = Inl CannotApplyDiffs
   \<and> supersede_members (example_env False False)
        [(\<lparr>mw_id = 10, mw_tags = [], mw_nodes = example_ring, mw_role = None\<rparr>, True)]
        example_state
      = example_state\<lparr>ways_done_tracker := [10]\<rparr>"
proof -
  have h: "\<not> opt_slim (m_options (example_env False False))
      \<or> opt_droptemp (m_options (example_env False False))"
    by (simp add: example_env_def)
  have e: "example_ring \<noteq> []"
    by (simp add: example_ring_def)
  show ?thesis
    using delete_way_without_slim_or_with_droptemp [OF h, of 10 example_state
        "[(\<lparr>mw_id = 10, mw_tags = [], mw_nodes = example_ring, mw_role = None\<rparr>, True)]"] e
    by (simp add: example_env_def superseded_ids_def example_state_def)
qed

subsection \<open>The loops over the geometries\<close>

lemma out_way_wkt_tables:
  "id_geoms (tbl_poly (snd (out_way_wkt E oid nodes roads g ts)))
     = id_geoms (tbl_poly (snd ts)) @ map (\<lambda>w. (oid, Wkt w)) (poly_wkts [g])"
  "id_geoms (tbl_line (snd (out_way_wkt E oid nodes roads g ts)))
     = id_geoms (tbl_line (snd ts)) @ map (\<lambda>w. (oid, Wkt w)) (line_wkts [g])"
  "id_geoms (tbl_roads (snd (out_way_wkt E oid nodes roads g ts)))
     = id_geoms (tbl_roads (snd ts))
       @ (if roads then map (\<lambda>w. (oid, Wkt w)) (line_wkts [g]) else [])"
  "tbl_point (snd (out_way_wkt E oid nodes roads g ts)) = tbl_point (snd ts)"
  by (simp_all add: out_way_wkt_def id_geoms_def write_way_def poly_wkts_def line_wkts_def
      Let_def split: prod.splits)

lemma wkts_Cons:
  "poly_wkts (g # gs) = poly_wkts [g] @ poly_wkts gs"
  "line_wkts (g # gs) = line_wkts [g] @ line_wkts gs"
  by (simp_all add: poly_wkts_def line_wkts_def)

lemma out_way_wkts_tables:
  "id_geoms (tbl_poly (snd (out_way_wkts E oid nodes roads gs ts)))
     = id_geoms (tbl_poly (snd ts)) @ map (\<lambda>w. (oid, Wkt w)) (poly_wkts gs)"
  "id_geoms (tbl_line (snd (out_way_wkts E oid nodes roads gs ts)))
     = id_geoms (tbl_line (snd ts)) @ map (\<lambda>w. (oid, Wkt w)) (line_wkts gs)"
  "id_geoms (tbl_roads (snd (out_way_wkts E oid nodes roads gs ts)))
     = id_geoms (tbl_roads (snd ts))
       @ (if roads then map (\<lambda>w. (oid, Wkt w)) (line_wkts gs) else [])"
  "tbl_point (snd (out_way_wkts E oid nodes roads gs ts)) = tbl_point (snd ts)"
proof (induction gs arbitrary: ts)
  case Nil
  {
    case 1 show ?case by (simp add: poly_wkts_def)
  next
    case 2 show ?case by (simp add: line_wkts_def)
  next
    case 3 show ?case by (simp add: line_wkts_def)
  next
    case 4 show ?case by simp
  }
next
  case (Cons g gs)
  {
    case 1 show ?case
      by (simp add: Cons.IH(1) out_way_wkt_tables(1) wkts_Cons(1) [of g gs])
  next
    case 2 show ?case
      by (simp add: Cons.IH(2) out_way_wkt_tables(2) wkts_Cons(2) [of g gs])
  next
    case 3 show ?case
      by (simp add: Cons.IH(3) out_way_wkt_tables(3) wkts_Cons(2) [of g gs])
  next
    case 4 show ?case
      by (simp add: Cons.IH(4) out_way_wkt_tables(4))
  }
qed



lemma out_boundary_wkt_tables:
  "id_geoms (tbl_poly (snd (out_boundary_wkt E oid g ts)))
     = id_geoms (tbl_poly (snd ts)) @ map (\<lambda>w. (- oid, Wkt w)) (poly_wkts [g])"
  "tbl_line (snd (out_boundary_wkt E oid g ts)) = tbl_line (snd ts)"
  "tbl_roads (snd (out_boundary_wkt E oid g ts)) = tbl_roads (snd ts)"
  "tbl_point (snd (out_boundary_wkt E oid g ts)) = tbl_point (snd ts)"
  by (simp_all add: out_boundary_wkt_def id_geoms_def write_way_def poly_wkts_def
      Let_def split: prod.splits)

lemma out_boundary_wkts_tables:
  "id_geoms (tbl_poly (snd (out_boundary_wkts E oid gs ts)))
     = id_geoms (tbl_poly (snd ts)) @ map (\<lambda>w. (- oid, Wkt w)) (poly_wkts gs)"
  "tbl_line (snd (out_boundary_wkts E oid gs ts)) = tbl_line (snd ts)"
  "tbl_roads (snd (out_boundary_wkts E oid gs ts)) = tbl_roads (snd ts)"
  "tbl_point (snd (out_boundary_wkts E oid gs ts)) = tbl_point (snd ts)"
proof (induction gs arbitrary: ts)
  case Nil
  {
    case 1 show ?case by (simp add: poly_wkts_def)
  next
    case 2 show ?case by simp
  next
    case 3 show ?case by simp
  next
    case 4 show ?case by simp
  }
next
  case (Cons g gs)
  {
    case 1 show ?case
      by (simp add: Cons.IH(1) out_boundary_wkt_tables(1) wkts_Cons(1) [of g gs])
  next
    case 2 show ?case
      by (simp add: Cons.IH(2) out_boundary_wkt_tables(2))
  next
    case 3 show ?case
      by (simp add: Cons.IH(3) out_boundary_wkt_tables(3))
  next
    case 4 show ?case
      by (simp add: Cons.IH(4) out_boundary_wkt_tables(4))
  }
qed



subsection \<open>The ids of the rows written\<close>

lemma delete_way_slim:
  assumes "opt_slim (m_options E)" "\<not> opt_droptemp (m_options E)"
  shows "pgsql_delete_way_from_output E y s =
     s\<lparr>tbl_roads := delete_row y (tbl_roads s),
       tbl_line := (if from_db_result (tbl_line s) y \<noteq> 0 then delete_row y (tbl_line s)
                    else pgsql_pause_copy (tbl_line s)),
       tbl_poly := (if from_db_result (tbl_poly s) y \<noteq> 0 then delete_row y (tbl_poly s)
                    else pgsql_pause_copy (tbl_poly s)),
       expire := expire s @ [From_db t_line y, From_db t_poly y]\<rparr>"
proof -
  have f: "from_db_result (pgsql_pause_copy t) y = from_db_result t y" for t
    by (simp add: from_db_result_def pgsql_pause_copy_def)
  have d: "delete_row y (pgsql_pause_copy t) = delete_row y t" for t
    by (simp add: delete_row_def pgsql_pause_copy_def)
  show ?thesis
    using assms
    by (simp add: pgsql_delete_way_from_output_def Let_def f d)
qed

lemma delete_relation_closed:
  "pgsql_delete_relation_from_output y s =
     s\<lparr>tbl_roads := delete_row (- y) (tbl_roads s),
       tbl_line := (if from_db_result (tbl_line s) (- y) \<noteq> 0
                    then delete_row (- y) (tbl_line s) else pgsql_pause_copy (tbl_line s)),
       tbl_poly := (if from_db_result (tbl_poly s) (- y) \<noteq> 0
                    then delete_row (- y) (tbl_poly s) else pgsql_pause_copy (tbl_poly s)),
       expire := expire s @ [From_db t_line (- y), From_db t_poly (- y)]\<rparr>"
proof -
  have f: "from_db_result (pgsql_pause_copy t) z = from_db_result t z" for t z
    by (simp add: from_db_result_def pgsql_pause_copy_def)
  have d: "delete_row z (pgsql_pause_copy t) = delete_row z t" for t z
    by (simp add: delete_row_def pgsql_pause_copy_def)
  show ?thesis
    by (simp add: pgsql_delete_relation_from_output_def Let_def f d)
qed

lemma table_rows_sat_simps:
  "table_rows_sat P t t"
  "table_rows_sat P t (delete_row y t)"
  "table_rows_sat P t (pgsql_pause_copy t)"
  by (simp_all add: table_rows_sat_def delete_row_def pgsql_pause_copy_def)

lemma table_rows_sat_trans:
  "table_rows_sat P t t1 \<Longrightarrow> table_rows_sat P t1 t2 \<Longrightarrow> table_rows_sat P t t2"
  unfolding table_rows_sat_def by blast

lemma table_rows_sat_write:
  "table_rows_sat (\<lambda>r. row_id r = y) t (write_way y tags wkt t)"
  "table_rows_sat (\<lambda>r. row_id r = y) t (write_node y tags lat lon t)"
  by (simp_all add: table_rows_sat_def write_way_def write_node_def)

lemma rows_added_sat_refl: "rows_added_sat P s s"
  by (simp add: rows_added_sat_def table_rows_sat_simps)

lemma rows_added_sat_trans:
  "rows_added_sat P s s1 \<Longrightarrow> rows_added_sat P s1 s2 \<Longrightarrow> rows_added_sat P s s2"
  unfolding rows_added_sat_def using table_rows_sat_trans by blast

lemma rows_added_sat_mono:
  "(\<And>r. P r \<Longrightarrow> Q r) \<Longrightarrow> rows_added_sat P s s' \<Longrightarrow> rows_added_sat Q s s'"
  unfolding rows_added_sat_def table_rows_sat_def by blast

lemma rows_delete_way: "rows_added_sat P s (pgsql_delete_way_from_output E y s)"
proof (cases "opt_slim (m_options E) \<and> \<not> opt_droptemp (m_options E)")
  case True
  then show ?thesis
    by (simp add: delete_way_slim rows_added_sat_def table_rows_sat_simps)
next
  case False
  then have "pgsql_delete_way_from_output E y s = s"
    by (simp add: delete_way_noop)
  then show ?thesis
    by (simp add: rows_added_sat_refl)
qed

lemma rows_delete_relation: "rows_added_sat P s (pgsql_delete_relation_from_output y s)"
  by (simp add: delete_relation_closed rows_added_sat_def table_rows_sat_simps)

lemma rows_out_way_wkt:
  "rows_added_sat (\<lambda>r. row_id r = oid) (snd ts) (snd (out_way_wkt E oid nodes roads g ts))"
  by (simp add: rows_added_sat_def out_way_wkt_def table_rows_sat_simps table_rows_sat_write
      Let_def split: prod.splits)
lemma rows_out_way_wkts:
  "rows_added_sat (\<lambda>r. row_id r = oid) (snd ts) (snd (out_way_wkts E oid nodes roads gs ts))"
proof (induction gs arbitrary: ts)
  case Nil
  show ?case by (simp add: rows_added_sat_refl)
next
  case (Cons g gs)
  show ?case
    using rows_added_sat_trans [OF rows_out_way_wkt Cons.IH] by simp
qed

lemma rows_out_rel_wkt:
  "rows_added_sat (\<lambda>r. row_id r = - oid) (snd ts) (snd (out_rel_wkt E oid roads g ts))"
  by (simp add: rows_added_sat_def out_rel_wkt_def table_rows_sat_simps table_rows_sat_write
      Let_def split: prod.splits)

lemma rows_out_rel_wkts:
  "rows_added_sat (\<lambda>r. row_id r = - oid) (snd ts) (snd (out_rel_wkts E oid roads gs ts))"
proof (induction gs arbitrary: ts)
  case Nil
  show ?case by (simp add: rows_added_sat_refl)
next
  case (Cons g gs)
  show ?case
    using rows_added_sat_trans [OF rows_out_rel_wkt Cons.IH] by simp
qed

lemma rows_out_boundary_wkt:
  "rows_added_sat (\<lambda>r. row_id r = - oid) (snd ts) (snd (out_boundary_wkt E oid g ts))"
  by (simp add: rows_added_sat_def out_boundary_wkt_def table_rows_sat_simps
      table_rows_sat_write Let_def split: prod.splits)

lemma rows_out_boundary_wkts:
  "rows_added_sat (\<lambda>r. row_id r = - oid) (snd ts) (snd (out_boundary_wkts E oid gs ts))"
proof (induction gs arbitrary: ts)
  case Nil
  show ?case by (simp add: rows_added_sat_refl)
next
  case (Cons g gs)
  show ?case
    using rows_added_sat_trans [OF rows_out_boundary_wkt Cons.IH] by simp
qed

lemma rows_supersede_members: "rows_added_sat P s (supersede_members E ms s)"
proof (induction ms arbitrary: s)
  case Nil
  show ?case by (simp add: rows_added_sat_refl)
next
  case (Cons p ms)
  obtain m superseded where p: "p = (m, superseded)" by (cases p)
  have d: "rows_added_sat P s (pgsql_delete_way_from_output E (mw_id m)
      (s\<lparr>ways_done_tracker := mark (mw_id m) (ways_done_tracker s)\<rparr>))"
    using rows_delete_way [of P "s\<lparr>ways_done_tracker := mark (mw_id m) (ways_done_tracker s)\<rparr>"
        E "mw_id m"]
    by (simp add: rows_added_sat_def)
  show ?case
    using rows_added_sat_trans [OF d Cons.IH] Cons.IH [of s]
    by (simp add: p rows_added_sat_refl)
qed

lemma rows_pgsql_out_way:
  "rows_added_sat (\<lambda>r. row_id r = oid) s (pgsql_out_way E oid tags nodes exists s)"
proof -
  define s1 where "s1 = (if exists
                then (let sd = pgsql_delete_way_from_output E oid s
                      in sd\<lparr>rels_pending_tracker :=
                             mark_all (relations_using_way E oid) (rels_pending_tracker sd)\<rparr>)
                else s)"
  have a: "rows_added_sat (\<lambda>r. row_id r = oid) s s1"
    using rows_delete_way [of "\<lambda>r. row_id r = oid" s E oid]
    by (simp add: s1_def rows_added_sat_def Let_def table_rows_sat_simps)
  have b: "rows_added_sat (\<lambda>r. row_id r = oid) s1
      (snd (out_way_wkts E oid nodes roads gs (tags, s1)))" for roads gs
    using rows_out_way_wkts [of oid "(tags, s1)" E nodes roads gs] by simp
  show ?thesis
    unfolding pgsql_out_way_def s1_def [symmetric]
    using a rows_added_sat_trans [OF a b]
    by (simp split: prod.splits)
qed

lemma rows_pgsql_out_node:
  "rows_added_sat (\<lambda>r. row_id r = oid) s (pgsql_out_node E oid tags lat lon s)"
  by (simp add: rows_added_sat_def pgsql_out_node_def table_rows_sat_simps
      table_rows_sat_write Let_def)

lemma rows_way_add:
  "rows_added_sat (\<lambda>r. row_id r = oid) s (way_add E oid nds tags s)"
proof -
  have "rows_added_sat (\<lambda>r. row_id r = oid) s
      (pgsql_out_way E oid tags (nodes_get_list E nds) False s)"
    by (rule rows_pgsql_out_way)
  then show ?thesis
    by (simp add: way_add_def Let_def rows_added_sat_def table_rows_sat_simps
        split: prod.splits)
qed

lemma pgsql_out_relation_unfold:
  assumes "filter_rel_member_tags E tags (map mw_tags xs) (map mw_role xs)
      = (filt, superseded, make_boundary, make_polygon, roads)"
    and "out_rel_wkts E oid roads
           (build E oid (map mw_nodes xs) make_polygon (opt_enable_multi (m_options E))
              (split_at E)) (tags, s) = (tags1, s1)"
    and "s2 = (if make_polygon
      then supersede_members E (zip xs (members_superseeded (length xs) superseded)) s1
      else s1)"
  shows "pgsql_out_relation E oid tags xs s =
    (if xs = [] \<or> filt
        \<or> build E oid (map mw_nodes xs) make_polygon (opt_enable_multi (m_options E))
             (split_at E) = []
     then s
     else if make_boundary
       then snd (out_boundary_wkts E oid
                  (build E oid (map mw_nodes xs) True (opt_enable_multi (m_options E))
                     (split_at E)) (tags1, s2))
       else s2)"
  unfolding pgsql_out_relation_def Let_def assms(1) prod.case assms(2) assms(3)
  by simp

lemma rows_pgsql_out_relation:
  "rows_added_sat (\<lambda>r. row_id r = - oid) s (pgsql_out_relation E oid tags xs s)"
proof -
  let ?P = "\<lambda>r. row_id r = - oid"
  obtain filt superseded make_boundary make_polygon roads
    where f: "filter_rel_member_tags E tags (map mw_tags xs) (map mw_role xs)
      = (filt, superseded, make_boundary, make_polygon, roads)"
    by (metis prod_cases5)
  obtain tags1 s1 where w: "out_rel_wkts E oid roads
           (build E oid (map mw_nodes xs) make_polygon (opt_enable_multi (m_options E))
              (split_at E)) (tags, s) = (tags1, s1)"
    by force
  define s2 where "s2 = (if make_polygon
      then supersede_members E (zip xs (members_superseeded (length xs) superseded)) s1
      else s1)"
  define s3 where "s3 = snd (out_boundary_wkts E oid
                  (build E oid (map mw_nodes xs) True (opt_enable_multi (m_options E))
                     (split_at E)) (tags1, s2))"
  have a: "rows_added_sat ?P s s1"
    using rows_out_rel_wkts [of oid "(tags, s)" E roads] w by (metis snd_conv)
  have b: "rows_added_sat ?P s1 s2"
    by (simp add: s2_def rows_supersede_members rows_added_sat_refl)
  have c: "rows_added_sat ?P s2 s3"
    using rows_out_boundary_wkts [of oid "(tags1, s2)" E]
    by (simp add: s3_def)
  have ab: "rows_added_sat ?P s s2"
    using a b by (rule rows_added_sat_trans)
  have abc: "rows_added_sat ?P s s3"
    using ab c by (rule rows_added_sat_trans)
  have "pgsql_out_relation E oid tags xs s = s \<or> pgsql_out_relation E oid tags xs s = s2
      \<or> pgsql_out_relation E oid tags xs s = s3"
    unfolding pgsql_out_relation_unfold [OF f w s2_def] s3_def by simp
  then show ?thesis
    using rows_added_sat_refl [of ?P s] ab abc by metis
qed

lemma rows_pgsql_process_relation:
  "rows_added_sat (\<lambda>r. row_id r = - oid) s
     (pgsql_process_relation E oid members tags exists s)"
proof -
  define s1 where "s1 = (if exists then pgsql_delete_relation_from_output oid s else s)"
  have a: "rows_added_sat (\<lambda>r. row_id r = - oid) s s1"
    by (simp add: s1_def rows_delete_relation rows_added_sat_refl)
  have b: "rows_added_sat (\<lambda>r. row_id r = - oid) s1 (pgsql_out_relation E oid tags xs s1)"
    for xs
    by (rule rows_pgsql_out_relation)
  show ?thesis
    unfolding pgsql_process_relation_def s1_def [symmetric]
    using a rows_added_sat_trans [OF a b]
    by (simp add: Let_def)
qed

lemma rows_relation_add:
  "rows_added_sat (\<lambda>r. row_id r = - oid) s (relation_add E oid members tags s)"
  by (simp add: relation_add_def rows_added_sat_refl rows_pgsql_process_relation
      split: option.splits)

text \<open>
  Claim C5. Every row that relation processing adds to a table carries the negated id
  of the relation, and every row that way or node processing adds carries the id of the
  way or node. Hence, for a positive id, relation processing adds only rows with a
  negative \<open>osm_id\<close> and way processing only rows with a positive one.
\<close>

theorem row_ids_by_origin:
  "rows_added_sat (\<lambda>r. row_id r = - oid) s (pgsql_out_relation E oid tags xs s)
   \<and> rows_added_sat (\<lambda>r. row_id r = - oid) s
       (pgsql_process_relation E oid members tags exists s)
   \<and> rows_added_sat (\<lambda>r. row_id r = - oid) s (relation_add E oid members tags s)
   \<and> rows_added_sat (\<lambda>r. row_id r = oid) s (pgsql_out_way E oid tags nodes exists s)
   \<and> rows_added_sat (\<lambda>r. row_id r = oid) s (way_add E oid nds tags s)
   \<and> rows_added_sat (\<lambda>r. row_id r = oid) s (pgsql_out_node E oid tags lat lon s)
   \<and> (0 < oid \<longrightarrow>
        rows_added_sat (\<lambda>r. row_id r < 0) s
          (pgsql_process_relation E oid members tags exists s)
        \<and> rows_added_sat (\<lambda>r. 0 < row_id r) s (pgsql_out_way E oid tags nodes exists s))"
proof -
  have "rows_added_sat (\<lambda>r. row_id r < 0) s
          (pgsql_process_relation E oid members tags exists s)" if "0 < oid"
    using rows_added_sat_mono [OF _ rows_pgsql_process_relation, of oid "\<lambda>r. row_id r < 0"]
      that by simp
  moreover have "rows_added_sat (\<lambda>r. 0 < row_id r) s
      (pgsql_out_way E oid tags nodes exists s)" if "0 < oid"
    using rows_added_sat_mono [OF _ rows_pgsql_out_way, of oid "\<lambda>r. 0 < row_id r"]
      that by simp
  ultimately show ?thesis
    by (simp add: rows_pgsql_out_relation rows_pgsql_process_relation rows_relation_add
        rows_pgsql_out_way rows_way_add rows_pgsql_out_node)
qed

lemma example_env_simps:
  "m_options (example_env a b) = \<lparr>opt_slim = a, opt_droptemp = b, opt_proj_latlong = True,
                   opt_enable_multi = False\<rparr>"
  "m_enable_way_area (example_env a b) = True"
  "filter_node_tags (example_env a b) tags = (tags = [])"
  "filter_way_tags (example_env a b) tags = (tags = [],
         map_of tags ''building'' \<noteq> None \<or> map_of tags ''natural'' \<noteq> None,
         map_of tags ''highway'' \<noteq> None)"
  "filter_rel_tags (example_env a b) tags = (tags = [])"
  "filter_rel_member_tags (example_env a b) rel_tags mtags roles =
         (False, map (\<lambda>t. t = filter (\<lambda>kv. fst kv \<noteq> ''type'') rel_tags) mtags,
          map_of rel_tags ''type'' = Some ''boundary'',
          map_of rel_tags ''type'' = Some ''multipolygon'', False)"
  "get_wkt_split (example_env a b) nodes polygon split =
         (if length nodes < 2 then []
         else if polygon then [(''POLYGON((0 0,0 1,1 1,0 0))'', 1 / 2)]
         else [(''LINESTRING(0 0,1 1)'', 0)])"
  "build (example_env a b) oid nnodes make_polygon multi split =
         (if make_polygon then [(''MULTIPOLYGON(((0 0,0 1,1 1,0 0)))'', 1 / 2)]
         else [(''LINESTRING(0 0,1 1)'', 0)])"
  "nodes_get_list (example_env a b) = map (\<lambda>i. OsmNode (of_int i) (of_int i))"
  "ways_get (example_env a b) oid = (if oid = 7 \<or> oid = 10 \<or> oid = 11
                         then Some ([(''natural'', ''water'')], example_ring) else None)"
  "ways_get_list (example_env a b) = map (\<lambda>i. (i, [(''natural'', ''water'')], example_ring))"
  "relations_get (example_env a b) oid = None"
  "relations_using_way (example_env a b) oid = []"
  "format_g (example_env a b) r = ''0.5''"
  by (simp_all add: example_env_def)

lemma example_relation_99:
  "pgsql_process_relation (example_env True False) 99 example_members example_rel_tags False
     example_state
   = \<lparr>tbl_point = \<lparr>tbl_rows = [], tbl_copying = True\<rparr>,
      tbl_line = \<lparr>tbl_rows = [], tbl_copying = False\<rparr>,
      tbl_poly = \<lparr>tbl_rows =
         [\<lparr>row_id = - 99,
           row_tags = [(''type'', ''multipolygon''), (''natural'', ''water''),
                       (''way_area'', ''0.5'')],
           row_geom = Wkt ''MULTIPOLYGON(((0 0,0 1,1 1,0 0)))''\<rparr>],
         tbl_copying = False\<rparr>,
      tbl_roads = \<lparr>tbl_rows = [], tbl_copying = False\<rparr>,
      ways_pending_tracker = [], ways_done_tracker = [11, 10], rels_pending_tracker = [],
      expire = [From_wkt ''MULTIPOLYGON(((0 0,0 1,1 1,0 0)))'' (- 99),
                From_db t_line 10, From_db t_poly 10, From_db t_line 11, From_db t_poly 11]\<rparr>"
  by (simp add: pgsql_process_relation_def example_members_def example_rel_tags_def
      example_env_simps member_role_def pgsql_out_relation_def split_at_def out_rel_wkt_def
      is_polygon_wkt_def add_way_area_def write_way_def members_superseeded_def
      example_ring_def delete_way_slim mark_def Let_def example_state_def empty_table_def
      from_db_result_def delete_row_def pgsql_pause_copy_def)

theorem row_ids_by_origin_witness:
  "0 < (99 :: int)
   \<and> rows_added_sat (\<lambda>r. row_id r < 0) example_state
       (pgsql_process_relation (example_env True False) 99 example_members example_rel_tags
          False example_state)
   \<and> map row_id (tbl_rows (tbl_poly
       (pgsql_process_relation (example_env True False) 99 example_members example_rel_tags
          False example_state))) = [- 99]"
  using row_ids_by_origin [of 99 example_state "example_env True False" example_rel_tags
      "[]" example_members False "[]" "[]" 0 0]
  by (simp add: example_relation_99)

subsection \<open>What a way leaves unchanged\<close>

lemma delete_way_frame:
  "ways_pending_tracker (pgsql_delete_way_from_output E y s) = ways_pending_tracker s"
  "ways_done_tracker (pgsql_delete_way_from_output E y s) = ways_done_tracker s"
  "rels_pending_tracker (pgsql_delete_way_from_output E y s) = rels_pending_tracker s"
  "tbl_point (pgsql_delete_way_from_output E y s) = tbl_point s"
  by (cases "opt_slim (m_options E) \<and> \<not> opt_droptemp (m_options E)";
      simp add: delete_way_slim delete_way_noop)+

lemma out_way_wkt_frame:
  "ways_pending_tracker (snd (out_way_wkt E oid nodes roads g ts)) = ways_pending_tracker (snd ts)"
  "ways_done_tracker (snd (out_way_wkt E oid nodes roads g ts)) = ways_done_tracker (snd ts)"
  "rels_pending_tracker (snd (out_way_wkt E oid nodes roads g ts)) = rels_pending_tracker (snd ts)"
  by (simp_all add: out_way_wkt_def Let_def split: prod.splits)

lemma out_way_wkts_frame:
  "ways_pending_tracker (snd (out_way_wkts E oid nodes roads gs ts)) = ways_pending_tracker (snd ts)"
  "ways_done_tracker (snd (out_way_wkts E oid nodes roads gs ts)) = ways_done_tracker (snd ts)"
  "rels_pending_tracker (snd (out_way_wkts E oid nodes roads gs ts))
     = rels_pending_tracker (snd ts)"
  by (induction gs arbitrary: ts) (simp_all add: out_way_wkt_frame)

lemma pgsql_out_way_frame:
  "ways_pending_tracker (pgsql_out_way E oid tags nodes exists s) = ways_pending_tracker s"
  "ways_done_tracker (pgsql_out_way E oid tags nodes exists s) = ways_done_tracker s"
  "tbl_point (pgsql_out_way E oid tags nodes exists s) = tbl_point s"
  by (simp_all add: pgsql_out_way_def Let_def delete_way_frame out_way_wkts_frame
      out_way_wkts_tables(4) split: prod.splits)

text \<open>
  Claim C6. \<open>way_add\<close> has three cases, by what the way filter returns. A kept way
  with the polygon flag is marked in the pending-ways tracker and nothing else changes
  (no row is written). A kept way without the polygon flag is not marked: its node
  coordinates come from \<open>nodes_get_list\<close>, the geometries are built without the polygon
  flag and written by the loop of \<open>pgsql_out_way\<close>, so that the line table receives
  the linear WKTs under the id of the way, and the roads table the same rows when the
  roads flag is set and nothing otherwise. A dropped way changes nothing.
\<close>

theorem way_add_cases:
  assumes "filter_way_tags E tags = (filt, polygon, roads)"
  shows "(\<not> filt \<and> polygon \<longrightarrow>
            way_add E oid nds tags s
              = s\<lparr>ways_pending_tracker := mark oid (ways_pending_tracker s)\<rparr>)
    \<and> (\<not> filt \<and> \<not> polygon \<longrightarrow>
          way_add E oid nds tags s
            = snd (out_way_wkts E oid (nodes_get_list E nds) roads
                     (get_wkt_split E (nodes_get_list E nds) False (split_at E)) (tags, s))
          \<and> ways_pending_tracker (way_add E oid nds tags s) = ways_pending_tracker s
          \<and> id_geoms (tbl_line (way_add E oid nds tags s))
              = id_geoms (tbl_line s)
                @ map (\<lambda>w. (oid, Wkt w))
                    (line_wkts (get_wkt_split E (nodes_get_list E nds) False (split_at E)))
          \<and> id_geoms (tbl_roads (way_add E oid nds tags s))
              = id_geoms (tbl_roads s)
                @ (if roads
                   then map (\<lambda>w. (oid, Wkt w))
                          (line_wkts (get_wkt_split E (nodes_get_list E nds) False (split_at E)))
                   else []))
    \<and> (filt \<longrightarrow> way_add E oid nds tags s = s)"
proof (intro conjI impI)
  assume "\<not> filt \<and> polygon"
  then show "way_add E oid nds tags s
      = s\<lparr>ways_pending_tracker := mark oid (ways_pending_tracker s)\<rparr>"
    using assms by (simp add: way_add_def)
next
  assume "filt"
  then show "way_add E oid nds tags s = s"
    using assms by (simp add: way_add_def)
next
  assume c: "\<not> filt \<and> \<not> polygon"
  let ?G = "get_wkt_split E (nodes_get_list E nds) False (split_at E)"
  show e: "way_add E oid nds tags s
      = snd (out_way_wkts E oid (nodes_get_list E nds) roads ?G (tags, s))"
    using assms c by (simp add: way_add_def pgsql_out_way_def)
  show "ways_pending_tracker (way_add E oid nds tags s) = ways_pending_tracker s"
    unfolding e by (simp add: out_way_wkts_frame)
  show "id_geoms (tbl_line (way_add E oid nds tags s))
      = id_geoms (tbl_line s) @ map (\<lambda>w. (oid, Wkt w)) (line_wkts ?G)"
    unfolding e by (simp add: out_way_wkts_tables)
  show "id_geoms (tbl_roads (way_add E oid nds tags s))
      = id_geoms (tbl_roads s) @ (if roads then map (\<lambda>w. (oid, Wkt w)) (line_wkts ?G) else [])"
    unfolding e by (simp add: out_way_wkts_tables)
qed

theorem way_add_cases_witness:
  "filter_way_tags (example_env False False) [(''highway'', ''primary'')] = (False, False, True)
   \<and> id_geoms (tbl_line (way_add (example_env False False) 5 [1, 2]
        [(''highway'', ''primary'')] example_state))
      = [(10, Wkt ''LINESTRING(0 0,1 1)''), (5, Wkt ''LINESTRING(0 0,1 1)'')]
   \<and> id_geoms (tbl_roads (way_add (example_env False False) 5 [1, 2]
        [(''highway'', ''primary'')] example_state))
      = [(5, Wkt ''LINESTRING(0 0,1 1)'')]
   \<and> ways_pending_tracker (way_add (example_env False False) 5 [1, 2]
        [(''highway'', ''primary'')] example_state) = []
   \<and> filter_way_tags (example_env False False) [(''building'', ''yes'')] = (False, True, False)
   \<and> way_add (example_env False False) 7 [1, 2, 3, 1] [(''building'', ''yes'')] example_state
      = example_state\<lparr>ways_pending_tracker := [7]\<rparr>
   \<and> filter_way_tags (example_env False False) [] = (True, False, False)
   \<and> way_add (example_env False False) 8 [1, 2] [] example_state = example_state"
proof -
  let ?E = "example_env False False"
  have 1: "filter_way_tags ?E [(''highway'', ''primary'')] = (False, False, True)"
    by (simp add: example_env_simps)
  have 2: "filter_way_tags ?E [(''building'', ''yes'')] = (False, True, False)"
    by (simp add: example_env_simps)
  have 3: "filter_way_tags ?E [] = (True, False, False)"
    by (simp add: example_env_simps)
  have g: "line_wkts (get_wkt_split ?E (nodes_get_list ?E [1, 2]) False (split_at ?E))
      = [''LINESTRING(0 0,1 1)'']"
    by (simp add: example_env_simps line_wkts_def is_polygon_wkt_def)
  have a: "ways_pending_tracker (way_add ?E 5 [1, 2] [(''highway'', ''primary'')] example_state)
        = ways_pending_tracker example_state
      \<and> id_geoms (tbl_line (way_add ?E 5 [1, 2] [(''highway'', ''primary'')] example_state))
        = id_geoms (tbl_line example_state) @ map (\<lambda>w. (5, Wkt w)) [''LINESTRING(0 0,1 1)'']
      \<and> id_geoms (tbl_roads (way_add ?E 5 [1, 2] [(''highway'', ''primary'')] example_state))
        = id_geoms (tbl_roads example_state)
          @ (if True then map (\<lambda>w. (5, Wkt w)) [''LINESTRING(0 0,1 1)''] else [])"
    using way_add_cases [OF 1, of 5 "[1, 2]" example_state] unfolding g by blast
  have b: "way_add ?E 7 [1, 2, 3, 1] [(''building'', ''yes'')] example_state
      = example_state\<lparr>ways_pending_tracker := mark 7 (ways_pending_tracker example_state)\<rparr>"
    using way_add_cases [OF 2, of 7 "[1, 2, 3, 1]" example_state] by blast
  have c: "way_add ?E 8 [1, 2] [] example_state = example_state"
    using way_add_cases [OF 3, of 8 "[1, 2]" example_state] by blast
  show ?thesis
    unfolding b c using a 1 2 3
    by (simp add: example_state_def id_geoms_def empty_table_def mark_def)
qed

subsection \<open>The way area flag of the style file\<close>

lemma style_line_way_area:
  assumes "style_line b ps = Inr ps'"
    and "ps_enable_way_area ps \<longleftrightarrow> \<not> way_area_deleted (ps_exlist ps)"
  shows "ps_enable_way_area ps' \<longleftrightarrow> \<not> way_area_deleted (ps_exlist ps')"
proof (cases "sscanf_result (line_fields b) \<le> 0")
  case True
  then have "ps' = ps\<lparr>ps_lineno := Suc (ps_lineno ps)\<rparr>"
    using assms(1) by (simp add: style_line_def Let_def line_fields_def)
  then show ?thesis using assms(2) by simp
next
  case False
  define temp where "temp = \<lparr>ti_name = line_fields b ! 1, ti_type = line_fields b ! 2,
      ti_flags = line_flags b ps\<rparr>"
  define el where "el = ps_exlist ps"
  have r: "ps_exlist ps' =
        (if strstr (line_fields b ! 0) ''way''
         then el_add OSMTYPE_WAY temp
                (if strstr (line_fields b ! 0) ''node'' then el_add OSMTYPE_NODE temp el else el)
         else el_add OSMTYPE_NODE temp el)
      \<and> (strstr (line_fields b ! 0) ''way'' \<or> strstr (line_fields b ! 0) ''node'')
      \<and> ps_enable_way_area ps' =
          (if ti_name temp = ''way_area'' \<and> ti_flags temp = {FLAG_DELETE} then False
           else ps_enable_way_area ps)"
    using assms(1) False
    unfolding style_line_def Let_def line_fields_def [symmetric] temp_def el_def line_flags_def
    by (auto split: if_splits prod.splits simp add: fst_def)
  have d: "way_area_deleted (ps_exlist ps') \<longleftrightarrow>
      way_area_deleted el \<or> (ti_name temp = ''way_area'' \<and> ti_flags temp = {FLAG_DELETE})"
    using r by (auto simp add: way_area_deleted_def el_add_def)
  show ?thesis
    using r d assms(2) by (auto simp add: el_def)
qed

lemma style_lines_way_area:
  assumes "style_lines bs ps = Inr ps'"
    and "ps_enable_way_area ps \<longleftrightarrow> \<not> way_area_deleted (ps_exlist ps)"
  shows "ps_enable_way_area ps' \<longleftrightarrow> \<not> way_area_deleted (ps_exlist ps')"
  using assms
proof (induction bs arbitrary: ps)
  case Nil
  then show ?case by simp
next
  case (Cons b bs)
  from Cons.prems(1) obtain ps1 where 1: "style_line b ps = Inr ps1"
    and 2: "style_lines bs ps1 = Inr ps'"
    by (auto split: sum.splits)
  show ?case
    using Cons.IH [OF 2 style_line_way_area [OF 1 Cons.prems(2)]] .
qed

subsection \<open>Superseded members\<close>

lemma delete_way_slim_rows:
  assumes "opt_slim (m_options E)" "\<not> opt_droptemp (m_options E)"
  shows "tbl_rows (tbl_line (pgsql_delete_way_from_output E y s))
      = filter (\<lambda>r. row_id r \<noteq> y) (tbl_rows (tbl_line s))"
    and "tbl_rows (tbl_poly (pgsql_delete_way_from_output E y s))
      = filter (\<lambda>r. row_id r \<noteq> y) (tbl_rows (tbl_poly s))"
    and "tbl_rows (tbl_roads (pgsql_delete_way_from_output E y s))
      = filter (\<lambda>r. row_id r \<noteq> y) (tbl_rows (tbl_roads s))"
proof -
  have k: "tbl_rows (if from_db_result t y \<noteq> 0 then delete_row y t else pgsql_pause_copy t)
      = filter (\<lambda>r. row_id r \<noteq> y) (tbl_rows t)" for t
  proof (cases "\<exists>r \<in> set (tbl_rows t). row_id r = y")
    case True
    then show ?thesis by (simp add: from_db_result_def delete_row_def)
  next
    case False
    then have "filter (\<lambda>r. row_id r \<noteq> y) (tbl_rows t) = tbl_rows t"
      by (simp add: filter_id_conv)
    with False show ?thesis by (simp add: from_db_result_def pgsql_pause_copy_def)
  qed
  show "tbl_rows (tbl_line (pgsql_delete_way_from_output E y s))
      = filter (\<lambda>r. row_id r \<noteq> y) (tbl_rows (tbl_line s))"
    unfolding delete_way_slim [OF assms] using k [of "tbl_line s"] by simp
  show "tbl_rows (tbl_poly (pgsql_delete_way_from_output E y s))
      = filter (\<lambda>r. row_id r \<noteq> y) (tbl_rows (tbl_poly s))"
    unfolding delete_way_slim [OF assms] using k [of "tbl_poly s"] by simp
  show "tbl_rows (tbl_roads (pgsql_delete_way_from_output E y s))
      = filter (\<lambda>r. row_id r \<noteq> y) (tbl_rows (tbl_roads s))"
    unfolding delete_way_slim [OF assms] by (simp add: delete_row_def)
qed

lemma supersede_members_done:
  "ways_done_tracker (supersede_members E ms s) = rev (superseded_ids ms) @ ways_done_tracker s"
proof (induction ms arbitrary: s)
  case Nil
  show ?case by (simp add: superseded_ids_def)
next
  case (Cons p ms)
  obtain m superseded where p: "p = (m, superseded)" by (cases p)
  show ?case
    by (simp add: p Cons.IH superseded_ids_def delete_way_frame mark_def)
qed

lemma superseded_ids_Cons:
  "superseded_ids ((m, f) # ms) =
     (if mw_nodes m = [] then []
      else (if f then [mw_id m] else []) @ superseded_ids ms)"
  by (simp add: superseded_ids_def)

lemma filter_not_in_Cons:
  "filter (\<lambda>r. row_id r \<notin> set ids) (filter (\<lambda>r. row_id r \<noteq> y) rs)
     = filter (\<lambda>r. row_id r \<notin> set (y # ids)) rs"
  by (induction rs) auto

lemma supersede_members_slim_rows:
  assumes "opt_slim (m_options E)" "\<not> opt_droptemp (m_options E)"
  shows "tbl_rows (tbl_line (supersede_members E ms s))
      = filter (\<lambda>r. row_id r \<notin> set (superseded_ids ms)) (tbl_rows (tbl_line s))"
    and "tbl_rows (tbl_poly (supersede_members E ms s))
      = filter (\<lambda>r. row_id r \<notin> set (superseded_ids ms)) (tbl_rows (tbl_poly s))"
    and "tbl_rows (tbl_roads (supersede_members E ms s))
      = filter (\<lambda>r. row_id r \<notin> set (superseded_ids ms)) (tbl_rows (tbl_roads s))"
proof (induction ms arbitrary: s)
  case Nil
  {
    case 1 show ?case by (simp add: superseded_ids_def)
  next
    case 2 show ?case by (simp add: superseded_ids_def)
  next
    case 3 show ?case by (simp add: superseded_ids_def)
  }
next
  case (Cons p ms)
  obtain m superseded where p: "p = (m, superseded)" by (cases p)
  {
    case 1 show ?case
      unfolding p superseded_ids_Cons
      using filter_not_in_Cons [of "superseded_ids ms" "mw_id m" "tbl_rows (tbl_line s)"]
      by (simp add: Cons.IH(1) delete_way_slim_rows [OF assms])
  next
    case 2 show ?case
      unfolding p superseded_ids_Cons
      using filter_not_in_Cons [of "superseded_ids ms" "mw_id m" "tbl_rows (tbl_poly s)"]
      by (simp add: Cons.IH(2) delete_way_slim_rows [OF assms])
  next
    case 3 show ?case
      unfolding p superseded_ids_Cons
      using filter_not_in_Cons [of "superseded_ids ms" "mw_id m" "tbl_rows (tbl_roads s)"]
      by (simp add: Cons.IH(3) delete_way_slim_rows [OF assms])
  }
qed

lemma superseded_ids_all_nodes:
  assumes "\<forall>m \<in> set xs. mw_nodes m \<noteq> []"
  shows "superseded_ids (zip xs (members_superseeded (length xs) superseded))
    = flagged_ids xs superseded"
proof -
  have "\<forall>p \<in> set (zip xs fl). mw_nodes (fst p) \<noteq> []" for fl :: "bool list"
    using assms by (auto dest: set_zip_leftD)
  then have tw: "takeWhile (\<lambda>p. mw_nodes (fst p) \<noteq> []) (zip xs fl) = zip xs fl"
    for fl :: "bool list"
    by (simp add: takeWhile_eq_all_conv)
  show ?thesis
    by (simp add: superseded_ids_def flagged_ids_def tw)
qed

lemma table_rows_sat_kept_write:
  "set (tbl_rows t) \<subseteq> set (tbl_rows (write_way y tags wkt t))"
  by (auto simp add: write_way_def)

lemma out_rel_wkt_keeps:
  "set (tbl_rows (tbl_line (snd ts))) \<subseteq> set (tbl_rows (tbl_line (snd (out_rel_wkt E oid roads g ts))))"
  "set (tbl_rows (tbl_poly (snd ts))) \<subseteq> set (tbl_rows (tbl_poly (snd (out_rel_wkt E oid roads g ts))))"
  "set (tbl_rows (tbl_roads (snd ts)))
     \<subseteq> set (tbl_rows (tbl_roads (snd (out_rel_wkt E oid roads g ts))))"
  by (auto simp add: out_rel_wkt_def write_way_def Let_def split: prod.splits)

lemma out_rel_wkts_keeps:
  "set (tbl_rows (tbl_line (snd ts))) \<subseteq> set (tbl_rows (tbl_line (snd (out_rel_wkts E oid roads gs ts))))"
  "set (tbl_rows (tbl_poly (snd ts))) \<subseteq> set (tbl_rows (tbl_poly (snd (out_rel_wkts E oid roads gs ts))))"
  "set (tbl_rows (tbl_roads (snd ts)))
     \<subseteq> set (tbl_rows (tbl_roads (snd (out_rel_wkts E oid roads gs ts))))"
proof (induction gs arbitrary: ts)
  case Nil
  {
    case 1 show ?case by simp
  next
    case 2 show ?case by simp
  next
    case 3 show ?case by simp
  }
next
  case (Cons g gs)
  {
    case 1 show ?case
      using out_rel_wkt_keeps(1) [of ts E oid roads g] Cons.IH(1) [of "out_rel_wkt E oid roads g ts"]
      by auto
  next
    case 2 show ?case
      using out_rel_wkt_keeps(2) [of ts E oid roads g] Cons.IH(2) [of "out_rel_wkt E oid roads g ts"]
      by auto
  next
    case 3 show ?case
      using out_rel_wkt_keeps(3) [of ts E oid roads g] Cons.IH(3) [of "out_rel_wkt E oid roads g ts"]
      by auto
  }
qed

lemma out_boundary_wkt_keeps:
  "set (tbl_rows (tbl_poly (snd ts))) \<subseteq> set (tbl_rows (tbl_poly (snd (out_boundary_wkt E oid g ts))))"
  by (auto simp add: out_boundary_wkt_def write_way_def Let_def split: prod.splits)

lemma out_boundary_wkts_keeps:
  "set (tbl_rows (tbl_poly (snd ts)))
     \<subseteq> set (tbl_rows (tbl_poly (snd (out_boundary_wkts E oid gs ts))))"
proof (induction gs arbitrary: ts)
  case Nil
  show ?case by simp
next
  case (Cons g gs)
  show ?case
    using out_boundary_wkt_keeps [of ts E oid g] Cons.IH [of "out_boundary_wkt E oid g ts"]
    by auto
qed

lemma out_rel_wkts_done:
  "ways_done_tracker (snd (out_rel_wkts E oid roads gs ts)) = ways_done_tracker (snd ts)"
proof (induction gs arbitrary: ts)
  case Nil
  show ?case by simp
next
  case (Cons g gs)
  have "ways_done_tracker (snd (out_rel_wkt E oid roads g ts)) = ways_done_tracker (snd ts)"
    by (simp add: out_rel_wkt_def Let_def split: prod.splits)
  then show ?case by (simp add: Cons.IH)
qed

lemma out_boundary_wkts_done:
  "ways_done_tracker (snd (out_boundary_wkts E oid gs ts)) = ways_done_tracker (snd ts)"
proof (induction gs arbitrary: ts)
  case Nil
  show ?case by simp
next
  case (Cons g gs)
  have "ways_done_tracker (snd (out_boundary_wkt E oid g ts)) = ways_done_tracker (snd ts)"
    by (simp add: out_boundary_wkt_def Let_def split: prod.splits)
  then show ?case by (simp add: Cons.IH)
qed

text \<open>
  Claim C3, as amended. Let the member filter keep the relation with
  \<open>make_polygon\<close> set, let the builder return at least one geometry, and let every
  fetched member way have at least one node. Then \<open>pgsql_out_relation\<close> marks in the
  \<open>ways_done\<close> tracker exactly the ids of the members flagged superseded. In slim mode
  without droptemp it also deletes their rows: afterwards the line, polygon and roads
  tables hold no row under the id of a superseded member (other than a row that the
  relation itself wrote under its own negated id). Outside slim mode, or with droptemp,
  no row is deleted. In every mode the rows of the ids that are not flagged stay.
\<close>

theorem superseded_members_marked_and_deleted:
  assumes "filter_rel_member_tags E tags (map mw_tags xs) (map mw_role xs)
      = (False, superseded, make_boundary, True, roads)"
    and "xs \<noteq> []"
    and "build E oid (map mw_nodes xs) True (opt_enable_multi (m_options E)) (split_at E) \<noteq> []"
    and "\<forall>m \<in> set xs. mw_nodes m \<noteq> []"
  shows "ways_done_tracker (pgsql_out_relation E oid tags xs s)
      = rev (flagged_ids xs superseded) @ ways_done_tracker s
    \<and> (opt_slim (m_options E) \<and> \<not> opt_droptemp (m_options E) \<longrightarrow>
         (\<forall>r \<in> set (tbl_rows (tbl_line (pgsql_out_relation E oid tags xs s)))
               \<union> set (tbl_rows (tbl_poly (pgsql_out_relation E oid tags xs s)))
               \<union> set (tbl_rows (tbl_roads (pgsql_out_relation E oid tags xs s))).
            row_id r \<in> set (flagged_ids xs superseded) \<longrightarrow> row_id r = - oid))
    \<and> (\<not> (opt_slim (m_options E) \<and> \<not> opt_droptemp (m_options E)) \<longrightarrow>
         set (tbl_rows (tbl_line s)) \<subseteq> set (tbl_rows (tbl_line (pgsql_out_relation E oid tags xs s)))
         \<and> set (tbl_rows (tbl_poly s))
             \<subseteq> set (tbl_rows (tbl_poly (pgsql_out_relation E oid tags xs s)))
         \<and> set (tbl_rows (tbl_roads s))
             \<subseteq> set (tbl_rows (tbl_roads (pgsql_out_relation E oid tags xs s))))
    \<and> (\<forall>r. row_id r \<notin> set (flagged_ids xs superseded) \<longrightarrow>
         (r \<in> set (tbl_rows (tbl_line s))
            \<longrightarrow> r \<in> set (tbl_rows (tbl_line (pgsql_out_relation E oid tags xs s))))
         \<and> (r \<in> set (tbl_rows (tbl_poly s))
            \<longrightarrow> r \<in> set (tbl_rows (tbl_poly (pgsql_out_relation E oid tags xs s))))
         \<and> (r \<in> set (tbl_rows (tbl_roads s))
            \<longrightarrow> r \<in> set (tbl_rows (tbl_roads (pgsql_out_relation E oid tags xs s)))))"
proof -
  let ?S = "flagged_ids xs superseded"
  let ?ms = "zip xs (members_superseeded (length xs) superseded)"
  let ?B = "build E oid (map mw_nodes xs) True (opt_enable_multi (m_options E)) (split_at E)"
  obtain tags1 s1 where w: "out_rel_wkts E oid roads ?B (tags, s) = (tags1, s1)"
    by force
  define s2 where "s2 = (if True then supersede_members E ?ms s1 else s1)"
  define s3 where "s3 = (if make_boundary then snd (out_boundary_wkts E oid ?B (tags1, s2)) else s2)"
  have s2: "s2 = supersede_members E ?ms s1"
    by (simp add: s2_def)
  have r: "pgsql_out_relation E oid tags xs s = s3"
    unfolding pgsql_out_relation_unfold [OF assms(1) w s2_def] s3_def
    using assms(2,3) by simp
  have ids: "superseded_ids ?ms = ?S"
    using assms(4) by (rule superseded_ids_all_nodes)
  have s1: "s1 = snd (out_rel_wkts E oid roads ?B (tags, s))"
    using w by simp
  have k1: "set (tbl_rows (tbl_line s)) \<subseteq> set (tbl_rows (tbl_line s1))"
    "set (tbl_rows (tbl_poly s)) \<subseteq> set (tbl_rows (tbl_poly s1))"
    "set (tbl_rows (tbl_roads s)) \<subseteq> set (tbl_rows (tbl_roads s1))"
    unfolding s1 using out_rel_wkts_keeps [of "(tags, s)" E oid roads ?B] by simp_all
  have k3: "tbl_line s3 = tbl_line s2" "tbl_roads s3 = tbl_roads s2"
    "set (tbl_rows (tbl_poly s2)) \<subseteq> set (tbl_rows (tbl_poly s3))"
    unfolding s3_def
    using out_boundary_wkts_keeps [of "(tags1, s2)" E oid ?B]
    by (simp_all add: out_boundary_wkts_tables)
  have b3: "\<forall>r \<in> set (tbl_rows (tbl_poly s3)). r \<in> set (tbl_rows (tbl_poly s2)) \<or> row_id r = - oid"
    using rows_out_boundary_wkts [of oid "(tags1, s2)" E ?B]
    by (auto simp add: s3_def rows_added_sat_def table_rows_sat_def)
  have d: "ways_done_tracker s3 = rev ?S @ ways_done_tracker s"
    unfolding s3_def s2 s1
    by (simp add: out_boundary_wkts_done supersede_members_done out_rel_wkts_done ids)
  have slim: "\<forall>r \<in> set (tbl_rows (tbl_line s3)) \<union> set (tbl_rows (tbl_poly s3))
               \<union> set (tbl_rows (tbl_roads s3)).
            row_id r \<in> set ?S \<longrightarrow> row_id r = - oid"
    if m: "opt_slim (m_options E) \<and> \<not> opt_droptemp (m_options E)"
  proof -
    have e: "opt_slim (m_options E)" "\<not> opt_droptemp (m_options E)"
      using m by simp_all
    have "\<forall>r \<in> set (tbl_rows (tbl_line s2)). row_id r \<notin> set ?S"
      "\<forall>r \<in> set (tbl_rows (tbl_poly s2)). row_id r \<notin> set ?S"
      "\<forall>r \<in> set (tbl_rows (tbl_roads s2)). row_id r \<notin> set ?S"
      unfolding s2 by (simp_all add: supersede_members_slim_rows [OF e] ids)
    then show ?thesis
      using k3(1,2) b3 by auto
  qed
  have same: "tbl_line s2 = tbl_line s1 \<and> tbl_poly s2 = tbl_poly s1 \<and> tbl_roads s2 = tbl_roads s1"
    if m: "\<not> (opt_slim (m_options E) \<and> \<not> opt_droptemp (m_options E))"
  proof -
    have "\<not> opt_slim (m_options E) \<or> opt_droptemp (m_options E)"
      using m by simp
    from supersede_members_noop [OF this, of ?ms s1] show ?thesis
      by (simp add: s2)
  qed
  have noslim: "set (tbl_rows (tbl_line s)) \<subseteq> set (tbl_rows (tbl_line s3))
         \<and> set (tbl_rows (tbl_poly s)) \<subseteq> set (tbl_rows (tbl_poly s3))
         \<and> set (tbl_rows (tbl_roads s)) \<subseteq> set (tbl_rows (tbl_roads s3))"
    if m: "\<not> (opt_slim (m_options E) \<and> \<not> opt_droptemp (m_options E))"
    using same [OF m] k1 k3 by auto
  have keep: "(r \<in> set (tbl_rows (tbl_line s)) \<longrightarrow> r \<in> set (tbl_rows (tbl_line s3)))
         \<and> (r \<in> set (tbl_rows (tbl_poly s)) \<longrightarrow> r \<in> set (tbl_rows (tbl_poly s3)))
         \<and> (r \<in> set (tbl_rows (tbl_roads s)) \<longrightarrow> r \<in> set (tbl_rows (tbl_roads s3)))"
    if n: "row_id r \<notin> set ?S" for r
  proof (cases "opt_slim (m_options E) \<and> \<not> opt_droptemp (m_options E)")
    case True
    then have e: "opt_slim (m_options E)" "\<not> opt_droptemp (m_options E)"
      by simp_all
    have "set (tbl_rows (tbl_line s2)) = {r \<in> set (tbl_rows (tbl_line s1)). row_id r \<notin> set ?S}"
      "set (tbl_rows (tbl_poly s2)) = {r \<in> set (tbl_rows (tbl_poly s1)). row_id r \<notin> set ?S}"
      "set (tbl_rows (tbl_roads s2)) = {r \<in> set (tbl_rows (tbl_roads s1)). row_id r \<notin> set ?S}"
      unfolding s2 by (simp_all add: supersede_members_slim_rows [OF e] ids)
    then show ?thesis
      using n k1 k3 by auto
  next
    case False
    then show ?thesis
      using noslim by auto
  qed
  show ?thesis
    unfolding r using d slim noslim keep by blast
qed

lemma example_out_relation_99:
  "pgsql_out_relation (example_env a b) 99 example_rel_tags example_member_ways example_state
   = supersede_members (example_env a b) [(example_member_ways ! 0, True), (example_member_ways ! 1, True)]
       (example_state\<lparr>expire := [From_wkt ''MULTIPOLYGON(((0 0,0 1,1 1,0 0)))'' (- 99)],
          tbl_poly := \<lparr>tbl_rows =
            [\<lparr>row_id = - 99,
              row_tags = [(''type'', ''multipolygon''), (''natural'', ''water''),
                          (''way_area'', ''0.5'')],
              row_geom = Wkt ''MULTIPOLYGON(((0 0,0 1,1 1,0 0)))''\<rparr>],
            tbl_copying = True\<rparr>\<rparr>)"
  by (simp add: example_rel_tags_def example_member_ways_def
      example_env_simps pgsql_out_relation_def split_at_def out_rel_wkt_def
      is_polygon_wkt_def add_way_area_def write_way_def members_superseeded_def
      Let_def example_state_def empty_table_def del: supersede_members.simps)

theorem superseded_members_marked_and_deleted_witness:
  "ways_done_tracker (pgsql_out_relation (example_env True False) 99 example_rel_tags
      example_member_ways example_state) = [11, 10]
   \<and> tbl_rows (tbl_line (pgsql_out_relation (example_env True False) 99 example_rel_tags
      example_member_ways example_state)) = []"
proof -
  let ?E = "example_env True False"
  have 1: "filter_rel_member_tags ?E example_rel_tags (map mw_tags example_member_ways)
      (map mw_role example_member_ways) = (False, [True, True], False, True, False)"
    by (simp add: example_env_simps example_rel_tags_def example_member_ways_def)
  have 2: "example_member_ways \<noteq> []"
    by (simp add: example_member_ways_def)
  have 3: "build ?E 99 (map mw_nodes example_member_ways) True (opt_enable_multi (m_options ?E))
      (split_at ?E) \<noteq> []"
    by (simp add: example_env_simps)
  have 4: "\<forall>m \<in> set example_member_ways. mw_nodes m \<noteq> []"
    by (simp add: example_member_ways_def example_ring_def)
  have f: "flagged_ids example_member_ways [True, True] = [10, 11]"
    by (simp add: flagged_ids_def members_superseeded_def example_member_ways_def)
  have l: "tbl_rows (tbl_line (pgsql_out_relation ?E 99 example_rel_tags example_member_ways
      example_state)) = []"
    unfolding example_out_relation_99
    by (simp add: example_env_simps example_member_ways_def example_ring_def delete_way_slim
        mark_def example_state_def empty_table_def from_db_result_def delete_row_def
        pgsql_pause_copy_def)
  show ?thesis
    using superseded_members_marked_and_deleted [OF 1 2 3 4, of example_state] l
    unfolding f by (simp add: example_state_def)
qed

text \<open>
  Claim C3 as stated fails outside slim mode: member 10 is flagged superseded and
  \<open>make_polygon\<close> is set, the id 10 is marked, and the line row of way 10 is still there.
\<close>

theorem superseded_member_row_kept_counterexample:
  "filter_rel_member_tags (example_env False False) example_rel_tags
      (map mw_tags example_member_ways) (map mw_role example_member_ways)
     = (False, [True, True], False, True, False)
   \<and> ways_done_tracker (pgsql_out_relation (example_env False False) 99 example_rel_tags
        example_member_ways example_state) = [11, 10]
   \<and> tbl_rows (tbl_line (pgsql_out_relation (example_env False False) 99 example_rel_tags
        example_member_ways example_state))
     = [\<lparr>row_id = 10, row_tags = [(''natural'', ''water'')],
         row_geom = Wkt ''LINESTRING(0 0,1 1)''\<rparr>]"
proof -
  let ?E = "example_env False False"
  have n: "\<not> opt_slim (m_options ?E) \<or> opt_droptemp (m_options ?E)"
    by (simp add: example_env_simps)
  show ?thesis
    unfolding example_out_relation_99 supersede_members_noop [OF n]
    by (simp add: example_env_simps example_rel_tags_def example_member_ways_def
        superseded_ids_def example_ring_def example_state_def)
qed

subsection \<open>The merge of the upstream ids with the deferred ids\<close>

lemma pop_mark_rep:
  assumes "set tr = set R" "sorted_wrt (<) R"
  shows "fst (pop_mark tr) = next_or_max R \<and> set (snd (pop_mark tr)) = set (tl R)"
proof (cases R)
  case Nil
  with assms show ?thesis by (simp add: pop_mark_def next_or_max_def)
next
  case (Cons r R')
  have ne: "tr \<noteq> []" using assms(1) Cons by auto
  have lt: "\<forall>y \<in> set R'. r < y" using assms(2) Cons by simp
  have "Min (set tr) = r"
    unfolding assms(1) Cons using lt by (intro Min_eqI) auto
  moreover have "set tr - {r} = set R'"
    unfolding assms(1) Cons using lt by auto
  ultimately show ?thesis
    using ne Cons by (simp add: pop_mark_def next_or_max_def)
qed

lemma run_until_generic:
  fixes run :: "osmid \<Rightarrow> bool \<Rightarrow> osmid \<times> 's \<Rightarrow> osmid \<times> 's"
    and step :: "bool \<Rightarrow> osmid \<Rightarrow> 's \<Rightarrow> 's"
    and get :: "'s \<Rightarrow> id_tracker" and put :: "id_tracker \<Rightarrow> 's \<Rightarrow> 's"
  assumes run_eq: "\<And>n s. run oid ex (n, s) =
      (if n < oid \<and> n < osmid_max
       then run oid ex (fst (pop_mark (get (step ex n s))),
                        put (snd (pop_mark (get (step ex n s)))) (step ex n s))
       else (n, s))"
    and get_step: "\<And>n s. get (step ex n s) = get s"
    and step_put: "\<And>n tr s. step ex n (put tr s) = put tr (step ex n s)"
    and get_put: "\<And>tr s. get (put tr s) = tr"
    and put_put: "\<And>tr tr' s. put tr (put tr' s) = put tr s"
    and "sorted_wrt (<) R" "\<forall>x \<in> set R. x < osmid_max"
    and "n = next_or_max R" "set (get s) = set (tl R)"
  shows "fst (run oid ex (n, s)) = next_or_max (dropWhile (\<lambda>x. x < oid) R)
     \<and> set (get (snd (run oid ex (n, s)))) = set (tl (dropWhile (\<lambda>x. x < oid) R))
     \<and> put [] (snd (run oid ex (n, s))) = fold (step ex) (takeWhile (\<lambda>x. x < oid) R) (put [] s)"
  using assms(6-9)
proof (induction R arbitrary: n s)
  case Nil
  then have "n = osmid_max" by (simp add: next_or_max_def)
  then have "run oid ex (n, s) = (n, s)"
    by (subst run_eq) simp
  with Nil show ?case by simp
next
  case (Cons r R)
  have n: "n = r" using Cons.prems(3) by (simp add: next_or_max_def)
  have g: "set (get s) = set R" using Cons.prems(4) by simp
  have sR: "sorted_wrt (<) R" and bR: "\<forall>x \<in> set R. x < osmid_max" and br: "r < osmid_max"
    using Cons.prems(1,2) by simp_all
  show ?case
  proof (cases "r < oid")
    case True
    let ?s1 = "step ex r s"
    let ?p = "pop_mark (get ?s1)"
    have e: "run oid ex (n, s) = run oid ex (fst ?p, put (snd ?p) ?s1)"
      using True br n by (subst run_eq) simp
    have p: "fst ?p = next_or_max R \<and> set (snd ?p) = set (tl R)"
      using pop_mark_rep [of "get ?s1" R] g sR by (simp add: get_step)
    have ih: "fst (run oid ex (fst ?p, put (snd ?p) ?s1)) = next_or_max (dropWhile (\<lambda>x. x < oid) R)
     \<and> set (get (snd (run oid ex (fst ?p, put (snd ?p) ?s1)))) = set (tl (dropWhile (\<lambda>x. x < oid) R))
     \<and> put [] (snd (run oid ex (fst ?p, put (snd ?p) ?s1)))
        = fold (step ex) (takeWhile (\<lambda>x. x < oid) R) (put [] (put (snd ?p) ?s1))"
      using Cons.IH [OF sR bR, of "fst ?p" "put (snd ?p) ?s1"] p by (simp add: get_put)
    show ?thesis
      unfolding e using ih True by (simp add: put_put step_put)
  next
    case False
    then have "run oid ex (n, s) = (n, s)"
      using n by (subst run_eq) simp
    with False n g show ?thesis by (simp add: next_or_max_def)
  qed
qed

lemma dropWhile_le_sorted:
  assumes "sorted_wrt (<) (R :: osmid list)"
  shows "dropWhile (\<lambda>x. x \<le> u) R =
     (case dropWhile (\<lambda>x. x < u) R of [] \<Rightarrow> [] | r # R2 \<Rightarrow> if r = u then R2 else r # R2)"
  using assms
proof (induction R)
  case Nil
  show ?case by simp
next
  case (Cons r R)
  then have lt: "\<forall>y \<in> set R. r < y" and s: "sorted_wrt (<) R" by simp_all
  show ?case
  proof (cases "r < u")
    case True
    then show ?thesis using Cons.IH [OF s] by simp
  next
    case False
    show ?thesis
    proof (cases "r = u")
      case True
      have "dropWhile (\<lambda>x. x \<le> u) R = R"
        using lt True by (cases R) auto
      with True show ?thesis by simp
    next
      case f: False
      with False show ?thesis by simp
    qed
  qed
qed


lemma sorted_takeWhile_filter:
  assumes "sorted_wrt (<) (R :: osmid list)"
  shows "takeWhile (\<lambda>x. x < u) R = filter (\<lambda>x. x < u) R"
  using assms
proof (induction R)
  case Nil
  show ?case by simp
next
  case (Cons r R)
  then have lt: "\<forall>y \<in> set R. r < y" and s: "sorted_wrt (<) R" by simp_all
  show ?case
  proof (cases "r < u")
    case True
    then show ?thesis using Cons.IH [OF s] by simp
  next
    case False
    then have "\<forall>y \<in> set R. \<not> y < u" using lt by auto
    then have "filter (\<lambda>x. x < u) R = []" by (simp add: filter_empty_conv)
    with False show ?thesis by simp
  qed
qed

lemma sorted_dropWhile_filter:
  assumes "sorted_wrt (<) (R :: osmid list)"
  shows "dropWhile (\<lambda>x. x \<le> u) R = filter (\<lambda>x. u < x) R"
  using assms
proof (induction R)
  case Nil
  show ?case by simp
next
  case (Cons r R)
  then have lt: "\<forall>y \<in> set R. r < y" and s: "sorted_wrt (<) R" by simp_all
  show ?case
  proof (cases "r \<le> u")
    case True
    then show ?thesis using Cons.IH [OF s] by simp
  next
    case False
    then have "\<forall>y \<in> set R. u < y" using lt by auto
    then have "filter (\<lambda>x. u < x) R = R" by (simp add: filter_id_conv)
    with False show ?thesis by simp
  qed
qed

lemma cb_call_generic:
  fixes run :: "osmid \<Rightarrow> bool \<Rightarrow> osmid \<times> 's \<Rightarrow> osmid \<times> 's"
    and step :: "bool \<Rightarrow> osmid \<Rightarrow> 's \<Rightarrow> 's"
    and get :: "'s \<Rightarrow> id_tracker" and put :: "id_tracker \<Rightarrow> 's \<Rightarrow> 's"
  assumes run_eq: "\<And>n s. run u ex (n, s) =
      (if n < u \<and> n < osmid_max
       then run u ex (fst (pop_mark (get (step ex n s))),
                        put (snd (pop_mark (get (step ex n s)))) (step ex n s))
       else (n, s))"
    and get_step: "\<And>n s. get (step ex n s) = get s"
    and step_put: "\<And>n tr s. step ex n (put tr s) = put tr (step ex n s)"
    and get_put: "\<And>tr s. get (put tr s) = tr"
    and put_put: "\<And>tr tr' s. put tr (put tr' s) = put tr s"
    and sR: "sorted_wrt (<) R" and bR: "\<forall>x \<in> set R. x < osmid_max"
    and n: "n = next_or_max R" and g: "set (get s) = set (tl R)"
    and c1: "c1 = (if n < u then run u ex (n, s) else (n, s))"
    and c2: "c2 = (if fst c1 = u
                   then (fst (pop_mark (get (snd c1))),
                         put (snd (pop_mark (get (snd c1)))) (snd c1))
                   else c1)"
  shows "fst c2 = next_or_max (dropWhile (\<lambda>x. x \<le> u) R)
     \<and> set (get (snd c2)) = set (tl (dropWhile (\<lambda>x. x \<le> u) R))
     \<and> put [] (snd c2) = fold (step ex) (takeWhile (\<lambda>x. x < u) R) (put [] s)"
proof -
  define R1 where "R1 = dropWhile (\<lambda>x. x < u) R"
  have r1: "fst c1 = next_or_max R1 \<and> set (get (snd c1)) = set (tl R1)
      \<and> put [] (snd c1) = fold (step ex) (takeWhile (\<lambda>x. x < u) R) (put [] s)"
  proof (cases "n < u")
    case True
    then show ?thesis
      unfolding c1 R1_def
      using run_until_generic [of run u ex get step put R n s, OF run_eq get_step step_put
          get_put put_put sR bR n g]
      by simp
  next
    case False
    have "dropWhile (\<lambda>x. x < u) R = R \<and> takeWhile (\<lambda>x. x < u) R = []"
      using False n by (cases R) (simp_all add: next_or_max_def)
    with False show ?thesis
      unfolding c1 R1_def using n g by simp
  qed
  have s1: "sorted_wrt (<) R1"
    unfolding R1_def using sR by (rule sorted_wrt_dropWhile)
  have d: "dropWhile (\<lambda>x. x \<le> u) R =
     (case R1 of [] \<Rightarrow> [] | r # R2 \<Rightarrow> if r = u then R2 else r # R2)"
    unfolding R1_def using sR by (rule dropWhile_le_sorted)
  show ?thesis
  proof (cases R1)
    case Nil
    then have e: "get (snd c1) = []" using r1 by simp
    have m: "fst c1 = osmid_max" using r1 Nil by (simp add: next_or_max_def)
    have "c2 = c1 \<or> c2 = (osmid_max, put [] (snd c1))"
      unfolding c2 using e by (simp add: pop_mark_def)
    then have "fst c2 = osmid_max \<and> get (snd c2) = [] \<and> put [] (snd c2) = put [] (snd c1)"
      using m e by (auto simp add: get_put put_put)
    moreover have "put [] (snd c1) = fold (step ex) (takeWhile (\<lambda>x. x < u) R) (put [] s)"
      using r1 by simp
    ultimately show ?thesis
      unfolding d Nil by (simp add: next_or_max_def)
  next
    case (Cons r R2)
    have f: "fst c1 = r" and gs: "set (get (snd c1)) = set R2"
      using r1 Cons by (simp_all add: next_or_max_def)
    have s2: "sorted_wrt (<) R2" using s1 Cons by simp
    show ?thesis
    proof (cases "r = u")
      case True
      have "fst c2 = next_or_max R2 \<and> set (get (snd c2)) = set (tl R2)
          \<and> put [] (snd c2) = put [] (snd c1)"
        unfolding c2 using f True pop_mark_rep [OF gs s2]
        by (simp add: get_put put_put)
      moreover have "put [] (snd c1) = fold (step ex) (takeWhile (\<lambda>x. x < u) R) (put [] s)"
        using r1 by simp
      ultimately show ?thesis
        unfolding d Cons using True by simp
    next
      case False
      then have "c2 = c1" unfolding c2 using f by simp
      then show ?thesis
        unfolding d Cons using False r1 Cons by (simp add: next_or_max_def)
    qed
  qed
qed


lemma pass_generic:
  fixes run :: "osmid \<Rightarrow> bool \<Rightarrow> osmid \<times> 's \<Rightarrow> osmid \<times> 's"
    and step :: "bool \<Rightarrow> osmid \<Rightarrow> 's \<Rightarrow> 's"
    and up :: "osmid \<Rightarrow> 'a \<Rightarrow> 'b \<Rightarrow> bool \<Rightarrow> 's \<Rightarrow> 's"
    and exec :: "('a, 'b) action \<Rightarrow> 's \<Rightarrow> 's"
    and call :: "osmid \<times> 'a \<times> 'b \<times> bool \<Rightarrow> osmid \<times> 's \<Rightarrow> osmid \<times> 's"
    and get :: "'s \<Rightarrow> id_tracker" and put :: "id_tracker \<Rightarrow> 's \<Rightarrow> 's"
  assumes run_eq: "\<And>u ex n s. run u ex (n, s) =
      (if n < u \<and> n < osmid_max
       then run u ex (fst (pop_mark (get (step ex n s))),
                        put (snd (pop_mark (get (step ex n s)))) (step ex n s))
       else (n, s))"
    and call_eq: "\<And>u a b ex n s. call (u, a, b, ex) (n, s) =
      (let c1 = (if n < u then run u ex (n, s) else (n, s));
           c2 = (if fst c1 = u
                 then (fst (pop_mark (get (snd c1))),
                       put (snd (pop_mark (get (snd c1)))) (snd c1))
                 else c1)
       in (fst c2, up u a b ex (snd c2)))"
    and exec_D: "\<And>x ex s. exec (Deferred x ex) s = step ex x s"
    and exec_U: "\<And>u a b ex s. exec (Upstream u a b ex) s = up u a b ex s"
    and get_step: "\<And>ex n s. get (step ex n s) = get s"
    and step_put: "\<And>ex n tr s. step ex n (put tr s) = put tr (step ex n s)"
    and get_up: "\<And>u a b ex s. get (up u a b ex s) = get s"
    and up_put: "\<And>u a b ex tr s. up u a b ex (put tr s) = put tr (up u a b ex s)"
    and get_put: "\<And>tr s. get (put tr s) = tr"
    and put_put: "\<And>tr tr' s. put tr (put tr' s) = put tr s"
    and "sorted_wrt (<) R" "\<forall>x \<in> set R. x < osmid_max"
    and "n = next_or_max R" "set (get s) = set (tl R)"
  shows "fst (run osmid_max fin (fold call U (n, s))) = osmid_max
     \<and> get (snd (run osmid_max fin (fold call U (n, s)))) = []
     \<and> put [] (snd (run osmid_max fin (fold call U (n, s)))) = fold exec (plan R U fin) (put [] s)"
  using assms(11-14)
proof (induction U arbitrary: R n s)
  case Nil
  have a: "dropWhile (\<lambda>x. x < osmid_max) R = []" "takeWhile (\<lambda>x. x < osmid_max) R = R"
    using Nil.prems(2) by (simp_all add: takeWhile_eq_all_conv)
  have f: "fold exec (map (\<lambda>x. Deferred x fin) R) t = fold (step fin) R t" for t
    by (induction R arbitrary: t) (simp_all add: exec_D)
  show ?case
    using run_until_generic [of run osmid_max fin get step put R n s, OF run_eq get_step step_put
        get_put put_put Nil.prems]
    unfolding a by (simp add: next_or_max_def f)
next
  case (Cons x U)
  obtain u a b ex where x: "x = (u, a, b, ex)" by (cases x)
  define c1 where "c1 = (if n < u then run u ex (n, s) else (n, s))"
  define c2 where "c2 = (if fst c1 = u
                   then (fst (pop_mark (get (snd c1))),
                         put (snd (pop_mark (get (snd c1)))) (snd c1))
                   else c1)"
  define R' where "R' = dropWhile (\<lambda>x. x \<le> u) R"
  have c: "fst c2 = next_or_max R'
     \<and> set (get (snd c2)) = set (tl R')
     \<and> put [] (snd c2) = fold (step ex) (takeWhile (\<lambda>x. x < u) R) (put [] s)"
    unfolding R'_def
    using cb_call_generic [of run u ex get step put R n s c1 c2, OF run_eq get_step step_put
        get_put put_put Cons.prems c1_def c2_def] .
  have call: "call x (n, s) = (fst c2, up u a b ex (snd c2))"
    unfolding x call_eq c1_def c2_def by (simp add: Let_def)
  have sR': "sorted_wrt (<) R'" "\<forall>x \<in> set R'. x < osmid_max"
    unfolding R'_def using Cons.prems(1,2)
    by (auto intro: sorted_wrt_dropWhile dest: set_dropWhileD)
  have ih: "fst (run osmid_max fin (fold call U (fst c2, up u a b ex (snd c2)))) = osmid_max
     \<and> get (snd (run osmid_max fin (fold call U (fst c2, up u a b ex (snd c2))))) = []
     \<and> put [] (snd (run osmid_max fin (fold call U (fst c2, up u a b ex (snd c2)))))
        = fold exec (plan R' U fin) (put [] (up u a b ex (snd c2)))"
    using Cons.IH [OF sR', of "fst c2" "up u a b ex (snd c2)"] c by (simp add: get_up)
  have f: "fold exec (map (\<lambda>x. Deferred x ex) L) t = fold (step ex) L t" for L t
    by (induction L arbitrary: t) (simp_all add: exec_D)
  have "put [] (up u a b ex (snd c2))
      = up u a b ex (fold (step ex) (takeWhile (\<lambda>x. x < u) R) (put [] s))"
    using c by (simp add: up_put [symmetric])
  then have "fold exec (plan R' U fin) (put [] (up u a b ex (snd c2)))
      = fold exec (plan R (x # U) fin) (put [] s)"
    unfolding x R'_def by (simp add: f exec_U)
  then show ?case
    using ih by (simp add: call)
qed

lemma map_action_id_Deferred:
  "map action_id (map (\<lambda>x. Deferred x ex) L) = L"
  by (induction L) simp_all

lemma plan_ids_sorted:
  assumes "sorted_wrt (<) R" "sorted_wrt (<) (map fst U)"
  shows "sorted_wrt (<) (map action_id (plan R U fin))
    \<and> set (map action_id (plan R U fin)) = set R \<union> set (map fst U)"
  using assms
proof (induction U arbitrary: R)
  case Nil
  show ?case
    unfolding plan.simps map_action_id_Deferred using Nil by simp
next
  case (Cons x U)
  obtain u a b ex where x: "x = (u, a, b, ex)" by (cases x)
  let ?A = "takeWhile (\<lambda>x. x < u) R"
  let ?R' = "dropWhile (\<lambda>x. x \<le> u) R"
  have sU: "sorted_wrt (<) (map fst U)" and gU: "\<forall>y \<in> set (map fst U). u < y"
    using Cons.prems(2) x by simp_all
  have sR': "sorted_wrt (<) ?R'"
    using Cons.prems(1) by (rule sorted_wrt_dropWhile)
  have ih: "sorted_wrt (<) (map action_id (plan ?R' U fin))"
    "set (map action_id (plan ?R' U fin)) = set ?R' \<union> set (map fst U)"
    using Cons.IH [OF sR' sU] by simp_all
  have A: "?A = filter (\<lambda>x. x < u) R" and B: "?R' = filter (\<lambda>x. u < x) R"
    using Cons.prems(1) by (rule sorted_takeWhile_filter, rule sorted_dropWhile_filter)
  have sA: "sorted_wrt (<) ?A"
    using Cons.prems(1) by (rule sorted_wrt_takeWhile)
  have ids: "map action_id (plan R (x # U) fin) = ?A @ [u] @ map action_id (plan ?R' U fin)"
    unfolding x plan.simps map_append map_action_id_Deferred by simp
  have "sorted_wrt (<) (?A @ [u] @ map action_id (plan ?R' U fin))"
    unfolding sorted_wrt_append using sA ih gU
    by (auto simp add: A B)
  moreover have "set (?A @ [u] @ map action_id (plan ?R' U fin)) = set R \<union> set (map fst (x # U))"
    unfolding x using ih(2) by (auto simp add: A B)
  ultimately show ?case unfolding ids by simp
qed

lemma plan_ids:
  assumes "sorted_wrt (<) R" "sorted_wrt (<) (map fst U)"
  shows "map action_id (plan R U fin) = sorted_list_of_set (set R \<union> set (map fst U))"
proof -
  let ?L = "map action_id (plan R U fin)"
  have "sorted_wrt (<) ?L" and s: "set ?L = set R \<union> set (map fst U)"
    using plan_ids_sorted [OF assms, of fin] by simp_all
  then have "sorted ?L" "distinct ?L"
    using strict_sorted_iff by blast+
  then have "sorted_list_of_set (set ?L) = ?L"
    by (rule sorted_list_of_set.idem_if_sorted_distinct)
  then show ?thesis unfolding s by simp
qed

subsection \<open>The way pass\<close>

lemma delete_way_put_ways_pending:
  "pgsql_delete_way_from_output E y (s\<lparr>ways_pending_tracker := tr\<rparr>)
     = (pgsql_delete_way_from_output E y s)\<lparr>ways_pending_tracker := tr\<rparr>"
  by (cases "opt_slim (m_options E) \<and> \<not> opt_droptemp (m_options E)")
    (simp_all add: delete_way_slim delete_way_noop)

lemma out_way_wkt_put_ways_pending:
  "out_way_wkt E oid nodes roads g (tags, s\<lparr>ways_pending_tracker := tr\<rparr>)
     = (fst (out_way_wkt E oid nodes roads g (tags, s)),
        (snd (out_way_wkt E oid nodes roads g (tags, s)))\<lparr>ways_pending_tracker := tr\<rparr>)"
  by (simp add: out_way_wkt_def Let_def split: prod.splits)

lemma out_way_wkts_put_ways_pending:
  "out_way_wkts E oid nodes roads gs (tags, s\<lparr>ways_pending_tracker := tr\<rparr>)
     = (fst (out_way_wkts E oid nodes roads gs (tags, s)),
        (snd (out_way_wkts E oid nodes roads gs (tags, s)))\<lparr>ways_pending_tracker := tr\<rparr>)"
proof (induction gs arbitrary: tags s)
  case Nil
  show ?case by simp
next
  case (Cons g gs)
  show ?case
    using Cons.IH [of "fst (out_way_wkt E oid nodes roads g (tags, s))"
        "snd (out_way_wkt E oid nodes roads g (tags, s))"]
    by (simp add: out_way_wkt_put_ways_pending)
qed

lemma pgsql_out_way_put_ways_pending:
  "pgsql_out_way E oid tags nodes exists (s\<lparr>ways_pending_tracker := tr\<rparr>)
     = (pgsql_out_way E oid tags nodes exists s)\<lparr>ways_pending_tracker := tr\<rparr>"
proof -
  define s1 where "s1 = (if exists
                then (let sd = pgsql_delete_way_from_output E oid s
                      in sd\<lparr>rels_pending_tracker :=
                             mark_all (relations_using_way E oid) (rels_pending_tracker sd)\<rparr>)
                else s)"
  have a: "(if exists
                then (let sd = pgsql_delete_way_from_output E oid (s\<lparr>ways_pending_tracker := tr\<rparr>)
                      in sd\<lparr>rels_pending_tracker :=
                             mark_all (relations_using_way E oid) (rels_pending_tracker sd)\<rparr>)
                else s\<lparr>ways_pending_tracker := tr\<rparr>) = s1\<lparr>ways_pending_tracker := tr\<rparr>"
    by (simp add: s1_def Let_def delete_way_put_ways_pending)
  show ?thesis
    unfolding pgsql_out_way_def a s1_def [symmetric]
    by (simp add: out_way_wkts_put_ways_pending split: prod.splits)
qed

lemma way_exec_Deferred:
  "way_exec E (Deferred x ex) s = way_run_internal_step E ex x s"
  by (simp add: way_run_internal_step_def split: option.splits)

lemma way_step_frame:
  "ways_pending_tracker (way_run_internal_step E ex n s) = ways_pending_tracker s"
  "ways_done_tracker (way_run_internal_step E ex n s) = ways_done_tracker s"
  by (simp_all add: way_run_internal_step_def pgsql_out_way_frame split: option.splits)

lemma way_step_put:
  "way_run_internal_step E ex n (s\<lparr>ways_pending_tracker := tr\<rparr>)
     = (way_run_internal_step E ex n s)\<lparr>ways_pending_tracker := tr\<rparr>"
  by (simp add: way_run_internal_step_def pgsql_out_way_put_ways_pending split: option.splits)

lemma way_run_eq:
  "way_run_internal_until E u ex (n, s) =
      (if n < u \<and> n < osmid_max
       then way_run_internal_until E u ex
              (fst (pop_mark (ways_pending_tracker (way_run_internal_step E ex n s))),
               (way_run_internal_step E ex n s)
                 \<lparr>ways_pending_tracker :=
                    snd (pop_mark (ways_pending_tracker (way_run_internal_step E ex n s)))\<rparr>)
       else (n, s))"
  by (subst way_run_internal_until.simps) (simp add: Let_def case_prod_beta)

lemma way_call_eq:
  "way_cb_call E (u, a, b, ex) (n, s) =
      (let c1 = (if n < u then way_run_internal_until E u ex (n, s) else (n, s));
           c2 = (if fst c1 = u
                 then (fst (pop_mark (ways_pending_tracker (snd c1))),
                       (snd c1)\<lparr>ways_pending_tracker :=
                                  snd (pop_mark (ways_pending_tracker (snd c1)))\<rparr>)
                 else c1)
       in (fst c2, way_exec E (Upstream u a b ex) (snd c2)))"
  by (simp add: way_cb_call_def Let_def case_prod_beta)

lemma iterate_ways_plan:
  assumes "\<forall>x \<in> set (ways_pending_tracker s). x < osmid_max"
  shows "iterate_ways E U fin s =
    (osmid_max,
     fold (way_exec E) (plan (sorted_list_of_set (set (ways_pending_tracker s))) U fin)
       (s\<lparr>ways_pending_tracker := []\<rparr>))"
proof -
  let ?P = "ways_pending_tracker s"
  let ?D = "sorted_list_of_set (set ?P)"
  let ?put = "\<lambda>tr s. s\<lparr>ways_pending_tracker := tr\<rparr>"
  let ?up = "\<lambda>u a b ex s. way_exec E (Upstream u a b ex) s"
  let ?n0 = "fst (pop_mark ?P)"
  let ?s0 = "s\<lparr>ways_pending_tracker := snd (pop_mark ?P)\<rparr>"
  have sD: "sorted_wrt (<) ?D" by simp
  have bD: "\<forall>x \<in> set ?D. x < osmid_max" using assms by simp
  have p: "?n0 = next_or_max ?D" "set (ways_pending_tracker ?s0) = set (tl ?D)"
    using pop_mark_rep [of ?P ?D] by simp_all
  have c: "way_cb_func s = (?n0, ?s0)"
    by (simp add: way_cb_func_def case_prod_beta)
  let ?res = "way_run_internal_until E osmid_max fin (fold (way_cb_call E) U (?n0, ?s0))"
  have g: "fst ?res = osmid_max \<and> ways_pending_tracker (snd ?res) = []
      \<and> ?put [] (snd ?res) = fold (way_exec E) (plan ?D U fin) (?put [] ?s0)"
    by (rule pass_generic [of "way_run_internal_until E" ways_pending_tracker
          "way_run_internal_step E" ?put "way_cb_call E" ?up "way_exec E" ?D ?n0 ?s0 fin U,
          OF way_run_eq way_call_eq way_exec_Deferred _ way_step_frame(1) way_step_put _ _ _ _
            sD bD p])
      (simp_all add: pgsql_out_way_frame pgsql_out_way_put_ways_pending)
  have e: "ways_pending_tracker (snd ?res) = []"
    using g by blast
  have "snd ?res = (snd ?res)\<lparr>ways_pending_tracker := ways_pending_tracker (snd ?res)\<rparr>"
    by simp
  also have "\<dots> = (snd ?res)\<lparr>ways_pending_tracker := []\<rparr>"
    by (simp only: e)
  also have "\<dots> = fold (way_exec E) (plan ?D U fin) (?put [] ?s0)"
    using g by blast
  also have "\<dots> = fold (way_exec E) (plan ?D U fin) (s\<lparr>ways_pending_tracker := []\<rparr>)"
    by simp
  finally have "?res = (osmid_max,
      fold (way_exec E) (plan ?D U fin) (s\<lparr>ways_pending_tracker := []\<rparr>))"
    using g by (metis prod.collapse)
  then show ?thesis
    by (simp add: iterate_ways_def way_cb_finish_def c)
qed

subsection \<open>The relation pass\<close>

lemma delete_way_put_rels_pending:
  "pgsql_delete_way_from_output E y (s\<lparr>rels_pending_tracker := tr\<rparr>)
     = (pgsql_delete_way_from_output E y s)\<lparr>rels_pending_tracker := tr\<rparr>"
  by (cases "opt_slim (m_options E) \<and> \<not> opt_droptemp (m_options E)")
    (simp_all add: delete_way_slim delete_way_noop)

lemma delete_relation_put_rels_pending:
  "pgsql_delete_relation_from_output y (s\<lparr>rels_pending_tracker := tr\<rparr>)
     = (pgsql_delete_relation_from_output y s)\<lparr>rels_pending_tracker := tr\<rparr>"
  by (simp add: delete_relation_closed)

lemma out_rel_wkt_put_rels_pending:
  "out_rel_wkt E oid roads g (tags, s\<lparr>rels_pending_tracker := tr\<rparr>)
     = (fst (out_rel_wkt E oid roads g (tags, s)),
        (snd (out_rel_wkt E oid roads g (tags, s)))\<lparr>rels_pending_tracker := tr\<rparr>)"
  by (simp add: out_rel_wkt_def Let_def split: prod.splits)

lemma out_rel_wkts_put_rels_pending:
  "out_rel_wkts E oid roads gs (tags, s\<lparr>rels_pending_tracker := tr\<rparr>)
     = (fst (out_rel_wkts E oid roads gs (tags, s)),
        (snd (out_rel_wkts E oid roads gs (tags, s)))\<lparr>rels_pending_tracker := tr\<rparr>)"
proof (induction gs arbitrary: tags s)
  case Nil
  show ?case by simp
next
  case (Cons g gs)
  show ?case
    using Cons.IH [of "fst (out_rel_wkt E oid roads g (tags, s))"
        "snd (out_rel_wkt E oid roads g (tags, s))"]
    by (simp add: out_rel_wkt_put_rels_pending)
qed

lemma out_boundary_wkt_put_rels_pending:
  "out_boundary_wkt E oid g (tags, s\<lparr>rels_pending_tracker := tr\<rparr>)
     = (fst (out_boundary_wkt E oid g (tags, s)),
        (snd (out_boundary_wkt E oid g (tags, s)))\<lparr>rels_pending_tracker := tr\<rparr>)"
  by (simp add: out_boundary_wkt_def Let_def split: prod.splits)

lemma out_boundary_wkts_put_rels_pending:
  "out_boundary_wkts E oid gs (tags, s\<lparr>rels_pending_tracker := tr\<rparr>)
     = (fst (out_boundary_wkts E oid gs (tags, s)),
        (snd (out_boundary_wkts E oid gs (tags, s)))\<lparr>rels_pending_tracker := tr\<rparr>)"
proof (induction gs arbitrary: tags s)
  case Nil
  show ?case by simp
next
  case (Cons g gs)
  show ?case
    using Cons.IH [of "fst (out_boundary_wkt E oid g (tags, s))"
        "snd (out_boundary_wkt E oid g (tags, s))"]
    by (simp add: out_boundary_wkt_put_rels_pending)
qed

lemma supersede_members_put_rels_pending:
  "supersede_members E ms (s\<lparr>rels_pending_tracker := tr\<rparr>)
     = (supersede_members E ms s)\<lparr>rels_pending_tracker := tr\<rparr>"
proof (induction ms arbitrary: s)
  case Nil
  show ?case by simp
next
  case (Cons p ms)
  obtain m superseded where p: "p = (m, superseded)" by (cases p)
  have "pgsql_delete_way_from_output E (mw_id m)
      (s\<lparr>rels_pending_tracker := tr,
          ways_done_tracker := mark (mw_id m) (ways_done_tracker s)\<rparr>)
    = (pgsql_delete_way_from_output E (mw_id m)
        (s\<lparr>ways_done_tracker := mark (mw_id m) (ways_done_tracker s)\<rparr>))
      \<lparr>rels_pending_tracker := tr\<rparr>"
  proof -
    have comm: "s\<lparr>rels_pending_tracker := tr, ways_done_tracker := x\<rparr>
        = s\<lparr>ways_done_tracker := x, rels_pending_tracker := tr\<rparr>" for x
      by simp
    show ?thesis
      unfolding comm by (rule delete_way_put_rels_pending)
  qed
  then show ?case
    by (simp add: p Cons.IH)
qed

lemma pgsql_out_relation_put_rels_pending:
  "pgsql_out_relation E oid tags xs (s\<lparr>rels_pending_tracker := tr\<rparr>)
     = (pgsql_out_relation E oid tags xs s)\<lparr>rels_pending_tracker := tr\<rparr>"
proof -
  obtain filt superseded make_boundary make_polygon roads
    where f: "filter_rel_member_tags E tags (map mw_tags xs) (map mw_role xs)
      = (filt, superseded, make_boundary, make_polygon, roads)"
    by (metis prod_cases5)
  let ?B = "build E oid (map mw_nodes xs) make_polygon (opt_enable_multi (m_options E))
              (split_at E)"
  let ?ms = "zip xs (members_superseeded (length xs) superseded)"
  obtain tags1 s1 where w: "out_rel_wkts E oid roads ?B (tags, s) = (tags1, s1)"
    by force
  have w': "out_rel_wkts E oid roads ?B (tags, s\<lparr>rels_pending_tracker := tr\<rparr>)
      = (tags1, s1\<lparr>rels_pending_tracker := tr\<rparr>)"
    by (simp add: out_rel_wkts_put_rels_pending w)
  define s2 where "s2 = (if make_polygon then supersede_members E ?ms s1 else s1)"
  define s2' where "s2' = (if make_polygon
      then supersede_members E ?ms (s1\<lparr>rels_pending_tracker := tr\<rparr>)
      else s1\<lparr>rels_pending_tracker := tr\<rparr>)"
  have e: "s2' = s2\<lparr>rels_pending_tracker := tr\<rparr>"
    by (simp add: s2_def s2'_def supersede_members_put_rels_pending)
  show ?thesis
    unfolding pgsql_out_relation_unfold [OF f w s2_def]
      pgsql_out_relation_unfold [OF f w' s2'_def] e
    by (simp add: out_boundary_wkts_put_rels_pending)
qed

lemma pgsql_process_relation_put_rels_pending:
  "pgsql_process_relation E oid members tags exists (s\<lparr>rels_pending_tracker := tr\<rparr>)
     = (pgsql_process_relation E oid members tags exists s)\<lparr>rels_pending_tracker := tr\<rparr>"
  by (simp add: pgsql_process_relation_def Let_def delete_relation_put_rels_pending
      pgsql_out_relation_put_rels_pending)

lemma supersede_members_rels_pending:
  "rels_pending_tracker (supersede_members E ms s) = rels_pending_tracker s"
proof (induction ms arbitrary: s)
  case Nil
  show ?case by simp
next
  case (Cons p ms)
  obtain m superseded where p: "p = (m, superseded)" by (cases p)
  show ?case
    by (simp add: p Cons.IH delete_way_frame)
qed

lemma out_rel_wkts_rels_pending:
  "rels_pending_tracker (snd (out_rel_wkts E oid roads gs ts)) = rels_pending_tracker (snd ts)"
proof (induction gs arbitrary: ts)
  case Nil
  show ?case by simp
next
  case (Cons g gs)
  have "rels_pending_tracker (snd (out_rel_wkt E oid roads g ts)) = rels_pending_tracker (snd ts)"
    by (simp add: out_rel_wkt_def Let_def split: prod.splits)
  then show ?case by (simp add: Cons.IH)
qed

lemma out_boundary_wkts_rels_pending:
  "rels_pending_tracker (snd (out_boundary_wkts E oid gs ts)) = rels_pending_tracker (snd ts)"
proof (induction gs arbitrary: ts)
  case Nil
  show ?case by simp
next
  case (Cons g gs)
  have "rels_pending_tracker (snd (out_boundary_wkt E oid g ts)) = rels_pending_tracker (snd ts)"
    by (simp add: out_boundary_wkt_def Let_def split: prod.splits)
  then show ?case by (simp add: Cons.IH)
qed

lemma pgsql_out_relation_rels_pending:
  "rels_pending_tracker (pgsql_out_relation E oid tags xs s) = rels_pending_tracker s"
proof -
  obtain filt superseded make_boundary make_polygon roads
    where f: "filter_rel_member_tags E tags (map mw_tags xs) (map mw_role xs)
      = (filt, superseded, make_boundary, make_polygon, roads)"
    by (metis prod_cases5)
  let ?B = "build E oid (map mw_nodes xs) make_polygon (opt_enable_multi (m_options E))
              (split_at E)"
  obtain tags1 s1 where w: "out_rel_wkts E oid roads ?B (tags, s) = (tags1, s1)"
    by force
  define s2 where "s2 = (if make_polygon
      then supersede_members E (zip xs (members_superseeded (length xs) superseded)) s1
      else s1)"
  have 1: "rels_pending_tracker s1 = rels_pending_tracker s"
    using out_rel_wkts_rels_pending [of E oid roads ?B "(tags, s)"] w by simp
  have 2: "rels_pending_tracker s2 = rels_pending_tracker s"
    by (simp add: s2_def supersede_members_rels_pending 1)
  show ?thesis
    unfolding pgsql_out_relation_unfold [OF f w s2_def]
    by (simp add: out_boundary_wkts_rels_pending 2)
qed

lemma pgsql_process_relation_rels_pending:
  "rels_pending_tracker (pgsql_process_relation E oid members tags exists s)
     = rels_pending_tracker s"
  by (simp add: pgsql_process_relation_def Let_def pgsql_out_relation_rels_pending
      delete_relation_closed)

lemma rel_exec_Deferred:
  "rel_exec E (Deferred x ex) s = rel_run_internal_step E ex x s"
  by (simp add: rel_run_internal_step_def split: option.splits)

lemma rel_step_frame:
  "rels_pending_tracker (rel_run_internal_step E ex n s) = rels_pending_tracker s"
  by (simp add: rel_run_internal_step_def pgsql_process_relation_rels_pending
      split: option.splits)

lemma rel_step_put:
  "rel_run_internal_step E ex n (s\<lparr>rels_pending_tracker := tr\<rparr>)
     = (rel_run_internal_step E ex n s)\<lparr>rels_pending_tracker := tr\<rparr>"
  by (simp add: rel_run_internal_step_def pgsql_process_relation_put_rels_pending
      split: option.splits)

lemma rel_run_eq:
  "rel_run_internal_until E u ex (n, s) =
      (if n < u \<and> n < osmid_max
       then rel_run_internal_until E u ex
              (fst (pop_mark (rels_pending_tracker (rel_run_internal_step E ex n s))),
               (rel_run_internal_step E ex n s)
                 \<lparr>rels_pending_tracker :=
                    snd (pop_mark (rels_pending_tracker (rel_run_internal_step E ex n s)))\<rparr>)
       else (n, s))"
  by (subst rel_run_internal_until.simps) (simp add: Let_def case_prod_beta)

lemma rel_call_eq:
  "rel_cb_call E (u, a, b, ex) (n, s) =
      (let c1 = (if n < u then rel_run_internal_until E u ex (n, s) else (n, s));
           c2 = (if fst c1 = u
                 then (fst (pop_mark (rels_pending_tracker (snd c1))),
                       (snd c1)\<lparr>rels_pending_tracker :=
                                  snd (pop_mark (rels_pending_tracker (snd c1)))\<rparr>)
                 else c1)
       in (fst c2, rel_exec E (Upstream u a b ex) (snd c2)))"
  by (simp add: rel_cb_call_def Let_def case_prod_beta)

lemma iterate_relations_plan:
  assumes "\<forall>x \<in> set (rels_pending_tracker s). x < osmid_max"
  shows "iterate_relations E U fin s =
    (osmid_max,
     fold (rel_exec E) (plan (sorted_list_of_set (set (rels_pending_tracker s))) U fin)
       (s\<lparr>rels_pending_tracker := []\<rparr>))"
proof -
  let ?P = "rels_pending_tracker s"
  let ?D = "sorted_list_of_set (set ?P)"
  let ?put = "\<lambda>tr s. s\<lparr>rels_pending_tracker := tr\<rparr>"
  let ?up = "\<lambda>u a b ex s. rel_exec E (Upstream u a b ex) s"
  let ?n0 = "fst (pop_mark ?P)"
  let ?s0 = "s\<lparr>rels_pending_tracker := snd (pop_mark ?P)\<rparr>"
  have sD: "sorted_wrt (<) ?D" by simp
  have bD: "\<forall>x \<in> set ?D. x < osmid_max" using assms by simp
  have p: "?n0 = next_or_max ?D" "set (rels_pending_tracker ?s0) = set (tl ?D)"
    using pop_mark_rep [of ?P ?D] by simp_all
  have c: "rel_cb_func s = (?n0, ?s0)"
    by (simp add: rel_cb_func_def case_prod_beta)
  let ?res = "rel_run_internal_until E osmid_max fin (fold (rel_cb_call E) U (?n0, ?s0))"
  have g: "fst ?res = osmid_max \<and> rels_pending_tracker (snd ?res) = []
      \<and> ?put [] (snd ?res) = fold (rel_exec E) (plan ?D U fin) (?put [] ?s0)"
    by (rule pass_generic [of "rel_run_internal_until E" rels_pending_tracker
          "rel_run_internal_step E" ?put "rel_cb_call E" ?up "rel_exec E" ?D ?n0 ?s0 fin U,
          OF rel_run_eq rel_call_eq rel_exec_Deferred _ rel_step_frame rel_step_put _ _ _ _
            sD bD p])
      (simp_all add: pgsql_process_relation_rels_pending pgsql_process_relation_put_rels_pending)
  have e: "rels_pending_tracker (snd ?res) = []"
    using g by blast
  have "snd ?res = (snd ?res)\<lparr>rels_pending_tracker := rels_pending_tracker (snd ?res)\<rparr>"
    by simp
  also have "\<dots> = (snd ?res)\<lparr>rels_pending_tracker := []\<rparr>"
    by (simp only: e)
  also have "\<dots> = fold (rel_exec E) (plan ?D U fin) (?put [] ?s0)"
    using g by blast
  also have "\<dots> = fold (rel_exec E) (plan ?D U fin) (s\<lparr>rels_pending_tracker := []\<rparr>)"
    by simp
  finally have "?res = (osmid_max,
      fold (rel_exec E) (plan ?D U fin) (s\<lparr>rels_pending_tracker := []\<rparr>))"
    using g by (metis prod.collapse)
  then show ?thesis
    by (simp add: iterate_relations_def rel_cb_finish_def c)
qed

text \<open>
  Claim C1. Let the upstream ids of a pass be strictly ascending and let the ids marked
  in the pending tracker be below the sentinel \<open>max\<close>. Then the way pass (and likewise
  the relation pass) ends with its cursor at the sentinel and an empty pending tracker,
  and its result is the result of executing, one after the other, the actions of the
  merge: each deferred id below an upstream id \<open>u\<close> is fetched from the middle and
  processed before \<open>u\<close> (a way unless \<open>ways_done\<close> marks it), a deferred id equal to
  \<open>u\<close> only advances the cursor and \<open>u\<close> is processed by the upstream call, and
  \<open>finish\<close> replays the deferred ids that are left. The ids of these actions are the
  ids of both sequences in ascending order, each exactly once. What an action does is
  \<open>way_exec\<close> and \<open>rel_exec\<close>: the fetch from the middle and the way or relation
  processing of the object fetched.
\<close>

theorem merged_traversal:
  assumes "sorted_wrt (<) (map fst Uw)" and "sorted_wrt (<) (map fst Ur)"
    and "\<forall>x \<in> set (ways_pending_tracker s). x < osmid_max"
    and "\<forall>x \<in> set (rels_pending_tracker s). x < osmid_max"
  shows "iterate_ways E Uw fin s =
      (osmid_max,
       fold (way_exec E) (plan (sorted_list_of_set (set (ways_pending_tracker s))) Uw fin)
         (s\<lparr>ways_pending_tracker := []\<rparr>))
    \<and> map action_id (plan (sorted_list_of_set (set (ways_pending_tracker s))) Uw fin)
      = sorted_list_of_set (set (ways_pending_tracker s) \<union> set (map fst Uw))
    \<and> iterate_relations E Ur fin s =
      (osmid_max,
       fold (rel_exec E) (plan (sorted_list_of_set (set (rels_pending_tracker s))) Ur fin)
         (s\<lparr>rels_pending_tracker := []\<rparr>))
    \<and> map action_id (plan (sorted_list_of_set (set (rels_pending_tracker s))) Ur fin)
      = sorted_list_of_set (set (rels_pending_tracker s) \<union> set (map fst Ur))"
proof -
  have w: "sorted_wrt (<) (sorted_list_of_set (set (ways_pending_tracker s)))"
    and r: "sorted_wrt (<) (sorted_list_of_set (set (rels_pending_tracker s)))"
    by simp_all
  show ?thesis
    using iterate_ways_plan [OF assms(3), of E Uw fin]
      iterate_relations_plan [OF assms(4), of E Ur fin]
      plan_ids [OF w assms(1), of fin] plan_ids [OF r assms(2), of fin]
    by simp
qed

theorem merged_traversal_witness:
  "fst (iterate_ways (example_env True False)
          [(10, [(''natural'', ''water'')], example_ring, True)] True
          (example_state\<lparr>ways_pending_tracker := [11, 7]\<rparr>)) = osmid_max
   \<and> map action_id
        (plan (sorted_list_of_set (set [11, 7]))
           [(10, [(''natural'', ''water'')], example_ring, True)] True)
      = [7, 10, 11]
   \<and> map row_id (tbl_rows (tbl_poly (snd (iterate_ways (example_env True False)
          [(10, [(''natural'', ''water'')], example_ring, True)] True
          (example_state\<lparr>ways_pending_tracker := [11, 7]\<rparr>)))))
      = [7, 10, 11]"
proof -
  let ?s = "example_state\<lparr>ways_pending_tracker := [11, 7]\<rparr>"
  let ?U = "[(10 :: osmid, [(''natural'', ''water'')], example_ring, True)]"
  have 1: "sorted_wrt (<) (map fst ?U)" by simp
  have 2: "sorted_wrt (<) (map fst ([] :: (osmid \<times> member list \<times> keyval \<times> bool) list))"
    by simp
  have 3: "\<forall>x \<in> set (ways_pending_tracker ?s). x < osmid_max"
    by (simp add: osmid_max_def)
  have 4: "\<forall>x \<in> set (rels_pending_tracker ?s). x < osmid_max"
    by (simp add: example_state_def)
  have 5: "sorted_list_of_set (set [11, 7] \<union> set (map fst ?U)) = [7, 10, 11 :: osmid]"
    by code_simp
  have 6: "sorted_list_of_set (set [11, 7 :: osmid]) = [7, 11]"
    by code_simp
  have 7: "?s\<lparr>ways_pending_tracker := []\<rparr> = example_state\<lparr>ways_pending_tracker := []\<rparr>"
    by simp
  have 8: "map row_id (tbl_rows (tbl_poly
      (fold (way_exec (example_env True False))
         [Deferred 7 True, Upstream 10 [(''natural'', ''water'')] example_ring True,
          Deferred 11 True]
         (example_state\<lparr>ways_pending_tracker := []\<rparr>)))) = [7, 10, 11]"
    by (simp add: example_env_simps pgsql_out_way_def split_at_def out_way_wkt_def
        is_polygon_wkt_def add_way_area_def write_way_def example_ring_def delete_way_slim
        mark_def is_marked_def Let_def example_state_def empty_table_def from_db_result_def
        delete_row_def pgsql_pause_copy_def)
  have 9: "iterate_ways (example_env True False) ?U True ?s =
      (osmid_max,
       fold (way_exec (example_env True False))
         [Deferred 7 True, Upstream 10 [(''natural'', ''water'')] example_ring True,
          Deferred 11 True]
         (example_state\<lparr>ways_pending_tracker := []\<rparr>))
    \<and> map action_id (plan (sorted_list_of_set (set [11, 7])) ?U True) = [7, 10, 11]"
    using merged_traversal [OF 1 2 3 4, of "example_env True False" True] 5
    unfolding 7 by (simp add: 6)
  show ?thesis
    using 9 8 by simp
qed

subsection \<open>Ways that are done\<close>

lemma keeps_rows_of_refl: "keeps_rows_of x s s"
  by (simp add: keeps_rows_of_def)

lemma keeps_rows_of_trans:
  "keeps_rows_of x s s1 \<Longrightarrow> keeps_rows_of x s1 s2 \<Longrightarrow> keeps_rows_of x s s2"
  by (simp add: keeps_rows_of_def)

lemma keeps_rows_of_put:
  "keeps_rows_of x s (s\<lparr>ways_pending_tracker := tr\<rparr>)"
  "keeps_rows_of x s (s\<lparr>rels_pending_tracker := tr\<rparr>)"
  by (simp_all add: keeps_rows_of_def)

lemma rows_of_simps:
  "y \<noteq> x \<Longrightarrow> rows_of x (delete_row y t) = rows_of x t"
  "rows_of x (pgsql_pause_copy t) = rows_of x t"
  "y \<noteq> x \<Longrightarrow> rows_of x (write_way y tags wkt t) = rows_of x t"
proof -
  assume "y \<noteq> x"
  then have "filter (\<lambda>r. row_id r = x) (filter (\<lambda>r. row_id r \<noteq> y) rs)
      = filter (\<lambda>r. row_id r = x) rs" for rs :: "row list"
    by (induction rs) auto
  then show "rows_of x (delete_row y t) = rows_of x t"
    by (simp add: rows_of_def delete_row_def)
next
  show "rows_of x (pgsql_pause_copy t) = rows_of x t"
    by (simp add: rows_of_def pgsql_pause_copy_def)
next
  assume "y \<noteq> x"
  then show "rows_of x (write_way y tags wkt t) = rows_of x t"
    by (simp add: rows_of_def write_way_def)
qed

lemma keeps_delete_way:
  assumes "y \<noteq> x"
  shows "keeps_rows_of x s (pgsql_delete_way_from_output E y s)"
proof (cases "opt_slim (m_options E) \<and> \<not> opt_droptemp (m_options E)")
  case True
  then show ?thesis
    using assms by (simp add: delete_way_slim keeps_rows_of_def rows_of_simps)
next
  case False
  then show ?thesis
    by (simp add: delete_way_noop keeps_rows_of_refl)
qed

lemma keeps_out_way_wkt:
  assumes "y \<noteq> x"
  shows "keeps_rows_of x (snd ts) (snd (out_way_wkt E y nodes roads g ts))"
  using assms
  by (simp add: out_way_wkt_def keeps_rows_of_def rows_of_simps Let_def split: prod.splits)

lemma keeps_out_way_wkts:
  assumes "y \<noteq> x"
  shows "keeps_rows_of x (snd ts) (snd (out_way_wkts E y nodes roads gs ts))"
proof (induction gs arbitrary: ts)
  case Nil
  show ?case by (simp add: keeps_rows_of_refl)
next
  case (Cons g gs)
  show ?case
    using keeps_rows_of_trans [OF keeps_out_way_wkt [OF assms] Cons.IH] by simp
qed

lemma keeps_pgsql_out_way:
  assumes "y \<noteq> x"
  shows "keeps_rows_of x s (pgsql_out_way E y tags nodes exists s)"
proof -
  define s1 where "s1 = (if exists
                then (let sd = pgsql_delete_way_from_output E y s
                      in sd\<lparr>rels_pending_tracker :=
                             mark_all (relations_using_way E y) (rels_pending_tracker sd)\<rparr>)
                else s)"
  have a: "keeps_rows_of x s s1"
    using keeps_delete_way [OF assms, of s E]
    by (simp add: s1_def Let_def keeps_rows_of_def)
  have b: "keeps_rows_of x s1 (snd (out_way_wkts E y nodes roads gs (tags, s1)))" for roads gs
    using keeps_out_way_wkts [OF assms, of "(tags, s1)" E nodes roads gs] by simp
  show ?thesis
    unfolding pgsql_out_way_def s1_def [symmetric]
    using a keeps_rows_of_trans [OF a b]
    by (simp split: prod.splits)
qed

lemma keeps_way_exec:
  assumes "is_marked x (ways_done_tracker s)"
  shows "keeps_rows_of x s (way_exec E act s)"
proof (cases act)
  case (Deferred n ex)
  show ?thesis
  proof (cases "n = x")
    case True
    then show ?thesis
      using assms Deferred
      by (simp add: keeps_rows_of_refl split: option.splits)
  next
    case False
    then show ?thesis
      using Deferred
      by (simp add: keeps_rows_of_refl keeps_pgsql_out_way split: option.splits)
  qed
next
  case (Upstream u a b ex)
  show ?thesis
  proof (cases "u = x")
    case True
    then show ?thesis
      using assms Upstream by (simp add: keeps_rows_of_refl)
  next
    case False
    then show ?thesis
      using Upstream by (simp add: keeps_rows_of_refl keeps_pgsql_out_way)
  qed
qed

lemma keeps_way_run_pair:
  "is_marked x (ways_done_tracker (snd c))
    \<Longrightarrow> keeps_rows_of x (snd c) (snd (way_run_internal_until E oid ex c))"
proof (induction E oid ex c rule: way_run_internal_until.induct)
  case (1 E oid ex n s)
  have mk: "is_marked x (ways_done_tracker s)"
    using "1.prems" by simp
  show ?case
  proof (cases "n < oid \<and> n < osmid_max")
    case True
    let ?s1 = "way_run_internal_step E ex n s"
    let ?p = "pop_mark (ways_pending_tracker ?s1)"
    let ?s2 = "?s1\<lparr>ways_pending_tracker := snd ?p\<rparr>"
    have eq: "(case ?p of (n, tr) \<Rightarrow> (n, ?s1\<lparr>ways_pending_tracker := tr\<rparr>)) = (fst ?p, ?s2)"
      by (simp add: case_prod_beta)
    have a: "keeps_rows_of x s ?s1"
      using keeps_way_exec [OF mk, of E "Deferred n ex"] by (simp only: way_exec_Deferred)
    have b: "keeps_rows_of x s ?s2"
      using a by (simp add: keeps_rows_of_def)
    have m: "is_marked x (ways_done_tracker ?s2)"
      using b mk by (simp add: keeps_rows_of_def)
    have ih: "keeps_rows_of x ?s2 (snd (way_run_internal_until E oid ex (fst ?p, ?s2)))"
      using "1.IH" [OF True refl] m unfolding eq by simp
    have "way_run_internal_until E oid ex (n, s) = way_run_internal_until E oid ex (fst ?p, ?s2)"
      using True by (subst way_run_eq) simp
    then show ?thesis
      using keeps_rows_of_trans [OF b ih] by simp
  next
    case False
    then have "way_run_internal_until E oid ex (n, s) = (n, s)"
      by (subst way_run_eq) auto
    then show ?thesis by (simp add: keeps_rows_of_refl)
  qed
qed

lemma keeps_way_cb_call:
  assumes "is_marked x (ways_done_tracker (snd c))"
  shows "keeps_rows_of x (snd c) (snd (way_cb_call E a c))"
proof -
  obtain u tags nodes ex where a: "a = (u, tags, nodes, ex)"
    by (metis prod_cases4)
  obtain n s where c: "c = (n, s)" by (cases c)
  define c1 where "c1 = (if n < u then way_run_internal_until E u ex (n, s) else (n, s))"
  define c2 where "c2 = (if fst c1 = u
                 then (fst (pop_mark (ways_pending_tracker (snd c1))),
                       (snd c1)\<lparr>ways_pending_tracker :=
                                  snd (pop_mark (ways_pending_tracker (snd c1)))\<rparr>)
                 else c1)"
  have mk: "is_marked x (ways_done_tracker s)"
    using assms c by simp
  have k1: "keeps_rows_of x s (snd c1)"
    using keeps_way_run_pair [of x "(n, s)" E u ex] mk
    by (simp add: c1_def keeps_rows_of_refl)
  have k2: "keeps_rows_of x (snd c1) (snd c2)"
    by (simp add: c2_def keeps_rows_of_refl keeps_rows_of_put)
  have k12: "keeps_rows_of x s (snd c2)"
    using k1 k2 by (rule keeps_rows_of_trans)
  have m2: "is_marked x (ways_done_tracker (snd c2))"
    using k12 mk by (simp add: keeps_rows_of_def)
  have k3: "keeps_rows_of x (snd c2) (way_exec E (Upstream u tags nodes ex) (snd c2))"
    using m2 by (rule keeps_way_exec)
  have "snd (way_cb_call E a c) = way_exec E (Upstream u tags nodes ex) (snd c2)"
    unfolding a c way_call_eq c1_def c2_def by (simp add: Let_def)
  then show ?thesis
    using keeps_rows_of_trans [OF k12 k3] c by simp
qed

lemma keeps_fold_way_cb_call:
  assumes "is_marked x (ways_done_tracker (snd c))"
  shows "keeps_rows_of x (snd c) (snd (fold (way_cb_call E) U c))"
  using assms
proof (induction U arbitrary: c)
  case Nil
  show ?case by (simp add: keeps_rows_of_refl)
next
  case (Cons a U)
  have k: "keeps_rows_of x (snd c) (snd (way_cb_call E a c))"
    using Cons.prems by (rule keeps_way_cb_call)
  then have "is_marked x (ways_done_tracker (snd (way_cb_call E a c)))"
    using Cons.prems by (simp add: keeps_rows_of_def)
  from keeps_rows_of_trans [OF k Cons.IH [OF this]] show ?case by simp
qed

text \<open>
  Claim C2, as amended. For a way id that is marked in the \<open>ways_done\<close> tracker, the
  way iteration writes no row: the deferred replay and the upstream callback both test
  \<open>is_marked\<close> first and leave the state as it is for a marked id, and after the whole
  pass every table has the rows under this id that it had before, and the id is still
  marked. (The pass is not the only caller of \<open>pgsql_out_way\<close>: \<open>way_add\<close> writes a
  linear way at once, without asking the tracker.)
\<close>

theorem done_way_not_written_by_iteration:
  assumes "is_marked x (ways_done_tracker s)"
  shows "way_run_internal_step E ex x s = s
    \<and> way_exec E (Upstream x tags nodes ex) s = s
    \<and> rows_of x (tbl_point (snd (iterate_ways E U fin s))) = rows_of x (tbl_point s)
    \<and> rows_of x (tbl_line (snd (iterate_ways E U fin s))) = rows_of x (tbl_line s)
    \<and> rows_of x (tbl_poly (snd (iterate_ways E U fin s))) = rows_of x (tbl_poly s)
    \<and> rows_of x (tbl_roads (snd (iterate_ways E U fin s))) = rows_of x (tbl_roads s)
    \<and> is_marked x (ways_done_tracker (snd (iterate_ways E U fin s)))"
proof -
  let ?c0 = "way_cb_func s"
  have s0: "keeps_rows_of x s (snd ?c0)"
    by (simp add: way_cb_func_def case_prod_beta keeps_rows_of_put)
  then have m0: "is_marked x (ways_done_tracker (snd ?c0))"
    using assms by (simp add: keeps_rows_of_def)
  let ?c1 = "fold (way_cb_call E) U ?c0"
  have s1: "keeps_rows_of x (snd ?c0) (snd ?c1)"
    using m0 by (rule keeps_fold_way_cb_call)
  then have m1: "is_marked x (ways_done_tracker (snd ?c1))"
    using m0 by (simp add: keeps_rows_of_def)
  have s2: "keeps_rows_of x (snd ?c1) (snd (way_run_internal_until E osmid_max fin ?c1))"
    using m1 by (rule keeps_way_run_pair)
  have "keeps_rows_of x s (snd (iterate_ways E U fin s))"
    unfolding iterate_ways_def way_cb_finish_def
    using keeps_rows_of_trans [OF s0 keeps_rows_of_trans [OF s1 s2]] .
  moreover have "way_run_internal_step E ex x s = s"
    using assms by (simp add: way_run_internal_step_def split: option.splits)
  moreover have "way_exec E (Upstream x tags nodes ex) s = s"
    using assms by simp
  ultimately show ?thesis
    using assms by (simp add: keeps_rows_of_def)
qed

theorem done_way_not_written_by_iteration_witness:
  "is_marked 10 (ways_done_tracker
      (example_state\<lparr>ways_pending_tracker := [10], ways_done_tracker := [10]\<rparr>))
   \<and> rows_of 10 (tbl_poly (snd (iterate_ways (example_env True False)
        [(10, [(''natural'', ''water'')], example_ring, True)] True
        (example_state\<lparr>ways_pending_tracker := [10], ways_done_tracker := [10]\<rparr>)))) = []
   \<and> rows_of 10 (tbl_line (snd (iterate_ways (example_env True False)
        [(10, [(''natural'', ''water'')], example_ring, True)] True
        (example_state\<lparr>ways_pending_tracker := [10], ways_done_tracker := [10]\<rparr>))))
     = [\<lparr>row_id = 10, row_tags = [(''natural'', ''water'')],
         row_geom = Wkt ''LINESTRING(0 0,1 1)''\<rparr>]"
proof -
  let ?s = "example_state\<lparr>ways_pending_tracker := [10], ways_done_tracker := [10]\<rparr>"
  have m: "is_marked 10 (ways_done_tracker ?s)"
    by (simp add: is_marked_def)
  show ?thesis
    using done_way_not_written_by_iteration [OF m, of "example_env True False" True
        "[(''natural'', ''water'')]" example_ring
        "[(10, [(''natural'', ''water'')], example_ring, True)]" True] m
    by (simp add: rows_of_def example_state_def empty_table_def)
qed

text \<open>
  Claim C2 as stated fails: relation 99 marks its member way 10 as done, and the
  \<open>way_add\<close> of way 10 that follows in the same run writes a line row under the id 10.
\<close>

theorem done_way_written_by_way_add_counterexample:
  "is_marked 10 (ways_done_tracker
      (relation_add example_env_highway 99 example_members example_highway_rel_tags
         (example_state\<lparr>tbl_line := empty_table\<rparr>)))
   \<and> rows_of 10 (tbl_line
      (relation_add example_env_highway 99 example_members example_highway_rel_tags
         (example_state\<lparr>tbl_line := empty_table\<rparr>))) = []
   \<and> rows_of 10 (tbl_line
      (way_add example_env_highway 10 [1, 2] [(''highway'', ''pedestrian'')]
        (relation_add example_env_highway 99 example_members example_highway_rel_tags
           (example_state\<lparr>tbl_line := empty_table\<rparr>))))
     = [\<lparr>row_id = 10, row_tags = [(''highway'', ''pedestrian'')],
         row_geom = Wkt ''LINESTRING(0 0,1 1)''\<rparr>]"
proof -
  let ?E = "example_env_highway"
  let ?s1 = "relation_add ?E 99 example_members example_highway_rel_tags
         (example_state\<lparr>tbl_line := empty_table\<rparr>)"
  have E: "m_options ?E = \<lparr>opt_slim = True, opt_droptemp = False, opt_proj_latlong = True,
                   opt_enable_multi = False\<rparr>"
    "ways_get_list ?E = map (\<lambda>i. (i, [(''highway'', ''pedestrian'')], example_ring))"
    "filter_rel_tags ?E = filter_rel_tags (example_env True False)"
    "filter_rel_member_tags ?E = filter_rel_member_tags (example_env True False)"
    "filter_way_tags ?E = filter_way_tags (example_env True False)"
    "build ?E = build (example_env True False)"
    "get_wkt_split ?E = get_wkt_split (example_env True False)"
    "nodes_get_list ?E = nodes_get_list (example_env True False)"
    "m_enable_way_area ?E = True"
    "format_g ?E = format_g (example_env True False)"
    by (simp_all add: example_env_highway_def example_env_simps)
  have s1: "?s1 =
     \<lparr>tbl_point = \<lparr>tbl_rows = [], tbl_copying = True\<rparr>,
      tbl_line = \<lparr>tbl_rows = [], tbl_copying = False\<rparr>,
      tbl_poly = \<lparr>tbl_rows =
         [\<lparr>row_id = - 99,
           row_tags = [(''type'', ''multipolygon''), (''highway'', ''pedestrian''),
                       (''way_area'', ''0.5'')],
           row_geom = Wkt ''MULTIPOLYGON(((0 0,0 1,1 1,0 0)))''\<rparr>],
         tbl_copying = False\<rparr>,
      tbl_roads = \<lparr>tbl_rows = [], tbl_copying = False\<rparr>,
      ways_pending_tracker = [], ways_done_tracker = [11, 10], rels_pending_tracker = [],
      expire = [From_wkt ''MULTIPOLYGON(((0 0,0 1,1 1,0 0)))'' (- 99),
                From_db t_line 10, From_db t_poly 10, From_db t_line 11, From_db t_poly 11]\<rparr>"
    by (simp add: relation_add_def pgsql_process_relation_def example_members_def
        example_highway_rel_tags_def E example_env_simps member_role_def
        pgsql_out_relation_def split_at_def out_rel_wkt_def is_polygon_wkt_def
        add_way_area_def write_way_def members_superseeded_def example_ring_def
        delete_way_slim mark_def Let_def example_state_def empty_table_def
        from_db_result_def delete_row_def pgsql_pause_copy_def)
  show ?thesis
    unfolding s1
    by (simp add: is_marked_def rows_of_def way_add_def pgsql_out_way_def E example_env_simps
        split_at_def out_way_wkt_def is_polygon_wkt_def write_way_def Let_def)
qed

subsection \<open>The way area of the polygon rows\<close>

lemma is_polygon_wkt_nonempty: "is_polygon_wkt w \<Longrightarrow> w \<noteq> []"
  by (auto simp add: is_polygon_wkt_def)

lemma out_way_wkts_fold:
  "out_way_wkts E oid nodes roads gs ts = fold (out_way_wkt E oid nodes roads) gs ts"
  by (induction gs arbitrary: ts) simp_all

lemma out_rel_wkts_fold:
  "out_rel_wkts E oid roads gs ts = fold (out_rel_wkt E oid roads) gs ts"
  by (induction gs arbitrary: ts) simp_all

lemma out_boundary_wkts_fold:
  "out_boundary_wkts E oid gs ts = fold (out_boundary_wkt E oid) gs ts"
  by (induction gs arbitrary: ts) simp_all

lemma poly_loop_none:
  fixes f :: "string \<times> real \<Rightarrow> keyval \<times> out_state \<Rightarrow> keyval \<times> out_state"
  assumes poly: "\<And>wkt area tags s. is_polygon_wkt wkt \<Longrightarrow>
        fst (f (wkt, area) (tags, s))
          = (if 0 < area \<and> m_enable_way_area E then tags @ [(''way_area'', format_g E area)]
             else tags)
      \<and> tbl_rows (tbl_poly (snd (f (wkt, area) (tags, s))))
          = tbl_rows (tbl_poly s)
            @ [\<lparr>row_id = rid, row_tags = fst (f (wkt, area) (tags, s)), row_geom = Wkt wkt\<rparr>]"
    and other: "\<And>wkt area tags s. \<not> is_polygon_wkt wkt \<Longrightarrow>
        fst (f (wkt, area) (tags, s)) = tags
      \<and> tbl_rows (tbl_poly (snd (f (wkt, area) (tags, s)))) = tbl_rows (tbl_poly s)"
    and "none_injected E gs"
  shows "fst (fold f gs (tags, s)) = tags
    \<and> tbl_rows (tbl_poly (snd (fold f gs (tags, s))))
        = tbl_rows (tbl_poly s)
          @ map (\<lambda>w. \<lparr>row_id = rid, row_tags = tags, row_geom = Wkt w\<rparr>) (poly_wkts gs)"
  using assms(3)
proof (induction gs arbitrary: s)
  case Nil
  show ?case by (simp add: poly_wkts_def)
next
  case (Cons g gs)
  obtain wkt area where g: "g = (wkt, area)" by (cases g)
  obtain t1 s1 where f: "f (wkt, area) (tags, s) = (t1, s1)" by force
  have n: "none_injected E gs" and h: "\<not> (is_polygon_wkt wkt \<and> 0 < area \<and> m_enable_way_area E)"
    using Cons.prems by (simp_all add: none_injected_def g)
  show ?case
  proof (cases "is_polygon_wkt wkt")
    case True
    have t: "t1 = tags" and r: "tbl_rows (tbl_poly s1)
        = tbl_rows (tbl_poly s) @ [\<lparr>row_id = rid, row_tags = tags, row_geom = Wkt wkt\<rparr>]"
      using poly [OF True, of area tags s] h True by (simp_all add: f)
    have p: "poly_wkts ((wkt, area) # gs) = wkt # poly_wkts gs"
      using True by (simp add: poly_wkts_def is_polygon_wkt_nonempty)
    show ?thesis
      using Cons.IH [OF n, of s1] by (simp add: g f t r p)
  next
    case False
    have t: "t1 = tags" and r: "tbl_rows (tbl_poly s1) = tbl_rows (tbl_poly s)"
      using other [OF False, of area tags s] by (simp_all add: f)
    have p: "poly_wkts ((wkt, area) # gs) = poly_wkts gs"
      using False by (simp add: poly_wkts_def)
    show ?thesis
      using Cons.IH [OF n, of s1] by (simp add: g f t r p)
  qed
qed

lemma poly_loop_extends:
  fixes f :: "string \<times> real \<Rightarrow> keyval \<times> out_state \<Rightarrow> keyval \<times> out_state"
  assumes poly: "\<And>wkt area tags s. is_polygon_wkt wkt \<Longrightarrow>
        fst (f (wkt, area) (tags, s))
          = (if 0 < area \<and> m_enable_way_area E then tags @ [(''way_area'', format_g E area)]
             else tags)
      \<and> tbl_rows (tbl_poly (snd (f (wkt, area) (tags, s))))
          = tbl_rows (tbl_poly s)
            @ [\<lparr>row_id = rid, row_tags = fst (f (wkt, area) (tags, s)), row_geom = Wkt wkt\<rparr>]"
    and other: "\<And>wkt area tags s. \<not> is_polygon_wkt wkt \<Longrightarrow>
        fst (f (wkt, area) (tags, s)) = tags
      \<and> tbl_rows (tbl_poly (snd (f (wkt, area) (tags, s)))) = tbl_rows (tbl_poly s)"
  shows "\<exists>rest. tbl_rows (tbl_poly (snd (fold f gs ts))) = tbl_rows (tbl_poly (snd ts)) @ rest
      \<and> map (\<lambda>r. (row_id r, row_geom r)) rest = map (\<lambda>w. (rid, Wkt w)) (poly_wkts gs)"
proof (induction gs arbitrary: ts)
  case Nil
  show ?case by (simp add: poly_wkts_def)
next
  case (Cons g gs)
  obtain tags s where ts: "ts = (tags, s)" by (cases ts)
  obtain wkt area where g: "g = (wkt, area)" by (cases g)
  obtain t1 s1 where f: "f (wkt, area) (tags, s) = (t1, s1)" by force
  obtain r2 where r2: "tbl_rows (tbl_poly (snd (fold f gs (t1, s1)))) = tbl_rows (tbl_poly s1) @ r2"
      "map (\<lambda>r. (row_id r, row_geom r)) r2 = map (\<lambda>w. (rid, Wkt w)) (poly_wkts gs)"
    using Cons.IH [of "(t1, s1)"] by auto
  show ?case
  proof (cases "is_polygon_wkt wkt")
    case True
    have r: "tbl_rows (tbl_poly s1)
        = tbl_rows (tbl_poly s) @ [\<lparr>row_id = rid, row_tags = t1, row_geom = Wkt wkt\<rparr>]"
      using poly [OF True, of area tags s] by (simp add: f)
    have p: "poly_wkts ((wkt, area) # gs) = wkt # poly_wkts gs"
      using True by (simp add: poly_wkts_def is_polygon_wkt_nonempty)
    show ?thesis
      apply (rule exI [of _ "\<lparr>row_id = rid, row_tags = t1, row_geom = Wkt wkt\<rparr> # r2"])
      using r2 by (simp add: ts g f r p)
  next
    case False
    have r: "tbl_rows (tbl_poly s1) = tbl_rows (tbl_poly s)"
      using other [OF False, of area tags s] by (simp add: f)
    have p: "poly_wkts ((wkt, area) # gs) = poly_wkts gs"
      using False by (simp add: poly_wkts_def)
    show ?thesis
      apply (rule exI [of _ r2])
      using r2 by (simp add: ts g f r p)
  qed
qed

lemma poly_loop_first:
  fixes f :: "string \<times> real \<Rightarrow> keyval \<times> out_state \<Rightarrow> keyval \<times> out_state"
  assumes poly: "\<And>wkt area tags s. is_polygon_wkt wkt \<Longrightarrow>
        fst (f (wkt, area) (tags, s))
          = (if 0 < area \<and> m_enable_way_area E then tags @ [(''way_area'', format_g E area)]
             else tags)
      \<and> tbl_rows (tbl_poly (snd (f (wkt, area) (tags, s))))
          = tbl_rows (tbl_poly s)
            @ [\<lparr>row_id = rid, row_tags = fst (f (wkt, area) (tags, s)), row_geom = Wkt wkt\<rparr>]"
    and other: "\<And>wkt area tags s. \<not> is_polygon_wkt wkt \<Longrightarrow>
        fst (f (wkt, area) (tags, s)) = tags
      \<and> tbl_rows (tbl_poly (snd (f (wkt, area) (tags, s)))) = tbl_rows (tbl_poly s)"
    and "none_injected E gs1" "is_polygon_wkt wkt"
  shows "\<exists>rest. tbl_rows (tbl_poly (snd (fold f (gs1 @ (wkt, area) # gs2) (tags, s))))
        = tbl_rows (tbl_poly s)
          @ map (\<lambda>w. \<lparr>row_id = rid, row_tags = tags, row_geom = Wkt w\<rparr>) (poly_wkts gs1)
          @ [\<lparr>row_id = rid,
              row_tags = (if 0 < area \<and> m_enable_way_area E
                          then tags @ [(''way_area'', format_g E area)] else tags),
              row_geom = Wkt wkt\<rparr>]
          @ rest
      \<and> map (\<lambda>r. (row_id r, row_geom r)) rest = map (\<lambda>w. (rid, Wkt w)) (poly_wkts gs2)"
proof -
  obtain t1 s1 where 1: "fold f gs1 (tags, s) = (t1, s1)" by force
  have t1: "t1 = tags" and r1: "tbl_rows (tbl_poly s1) = tbl_rows (tbl_poly s)
      @ map (\<lambda>w. \<lparr>row_id = rid, row_tags = tags, row_geom = Wkt w\<rparr>) (poly_wkts gs1)"
    using poly_loop_none [of f E rid gs1 tags s, OF poly other assms(3)] by (simp_all add: 1)
  obtain t2 s2 where 2: "f (wkt, area) (tags, s1) = (t2, s2)" by force
  have r2: "tbl_rows (tbl_poly s2) = tbl_rows (tbl_poly s1)
      @ [\<lparr>row_id = rid,
          row_tags = (if 0 < area \<and> m_enable_way_area E
                      then tags @ [(''way_area'', format_g E area)] else tags),
          row_geom = Wkt wkt\<rparr>]"
    using poly [OF assms(4), of area tags s1] by (simp add: 2)
  obtain rest where r3: "tbl_rows (tbl_poly (snd (fold f gs2 (t2, s2))))
      = tbl_rows (tbl_poly s2) @ rest"
      "map (\<lambda>r. (row_id r, row_geom r)) rest = map (\<lambda>w. (rid, Wkt w)) (poly_wkts gs2)"
    using poly_loop_extends [of f E rid gs2 "(t2, s2)", OF poly other] by auto
  have "fold f (gs1 @ (wkt, area) # gs2) (tags, s) = fold f gs2 (t2, s2)"
    by (simp add: 1 t1 2)
  then show ?thesis
    using r1 r2 r3 by simp
qed

lemma out_way_wkt_poly:
  assumes "is_polygon_wkt wkt"
  shows "fst (out_way_wkt E oid nodes roads (wkt, area) (tags, s))
          = (if 0 < area \<and> m_enable_way_area E then tags @ [(''way_area'', format_g E area)]
             else tags)
      \<and> tbl_rows (tbl_poly (snd (out_way_wkt E oid nodes roads (wkt, area) (tags, s))))
          = tbl_rows (tbl_poly s)
            @ [\<lparr>row_id = oid, row_tags = fst (out_way_wkt E oid nodes roads (wkt, area) (tags, s)),
                row_geom = Wkt wkt\<rparr>]"
  using assms is_polygon_wkt_nonempty [OF assms]
  by (simp add: out_way_wkt_def Let_def add_way_area_def write_way_def)

lemma out_way_wkt_other:
  assumes "\<not> is_polygon_wkt wkt"
  shows "fst (out_way_wkt E oid nodes roads (wkt, area) (tags, s)) = tags
      \<and> tbl_rows (tbl_poly (snd (out_way_wkt E oid nodes roads (wkt, area) (tags, s))))
          = tbl_rows (tbl_poly s)"
  using assms by (simp add: out_way_wkt_def Let_def)

lemma out_rel_wkt_poly:
  assumes "is_polygon_wkt wkt"
  shows "fst (out_rel_wkt E oid roads (wkt, area) (tags, s))
          = (if 0 < area \<and> m_enable_way_area E then tags @ [(''way_area'', format_g E area)]
             else tags)
      \<and> tbl_rows (tbl_poly (snd (out_rel_wkt E oid roads (wkt, area) (tags, s))))
          = tbl_rows (tbl_poly s)
            @ [\<lparr>row_id = - oid, row_tags = fst (out_rel_wkt E oid roads (wkt, area) (tags, s)),
                row_geom = Wkt wkt\<rparr>]"
  using assms is_polygon_wkt_nonempty [OF assms]
  by (simp add: out_rel_wkt_def Let_def add_way_area_def write_way_def)

lemma out_rel_wkt_other:
  assumes "\<not> is_polygon_wkt wkt"
  shows "fst (out_rel_wkt E oid roads (wkt, area) (tags, s)) = tags
      \<and> tbl_rows (tbl_poly (snd (out_rel_wkt E oid roads (wkt, area) (tags, s))))
          = tbl_rows (tbl_poly s)"
  using assms by (simp add: out_rel_wkt_def Let_def)

lemma out_boundary_wkt_poly:
  assumes "is_polygon_wkt wkt"
  shows "fst (out_boundary_wkt E oid (wkt, area) (tags, s))
          = (if 0 < area \<and> m_enable_way_area E then tags @ [(''way_area'', format_g E area)]
             else tags)
      \<and> tbl_rows (tbl_poly (snd (out_boundary_wkt E oid (wkt, area) (tags, s))))
          = tbl_rows (tbl_poly s)
            @ [\<lparr>row_id = - oid, row_tags = fst (out_boundary_wkt E oid (wkt, area) (tags, s)),
                row_geom = Wkt wkt\<rparr>]"
  using assms is_polygon_wkt_nonempty [OF assms]
  by (simp add: out_boundary_wkt_def Let_def add_way_area_def write_way_def)

lemma out_boundary_wkt_other:
  assumes "\<not> is_polygon_wkt wkt"
  shows "fst (out_boundary_wkt E oid (wkt, area) (tags, s)) = tags
      \<and> tbl_rows (tbl_poly (snd (out_boundary_wkt E oid (wkt, area) (tags, s))))
          = tbl_rows (tbl_poly s)"
  using assms by (simp add: out_boundary_wkt_def Let_def)

lemma same_id_rows:
  assumes "map (\<lambda>r. (row_id r, row_geom r)) rest = map (\<lambda>w. (rid, Wkt w)) ws"
  shows "filter (\<lambda>r. row_id r = rid) rest = rest"
proof -
  have "map row_id rest = map fst (map (\<lambda>r. (row_id r, row_geom r)) rest)"
    by simp
  also have "\<dots> = map (\<lambda>w. rid) ws"
    unfolding assms by simp
  finally have "set (map row_id rest) \<subseteq> {rid}"
    by auto
  then show ?thesis
    by (auto simp add: filter_id_conv)
qed

lemma pgsql_out_way_first_polygon:
  assumes f: "filter_way_tags E tags = (False, polygon, roads)"
    and g: "get_wkt_split E nodes polygon (split_at E) = gs1 @ (wkt, area) # gs2"
    and n: "none_injected E gs1" and p: "is_polygon_wkt wkt"
  shows "\<exists>rest. tbl_rows (tbl_poly (pgsql_out_way E oid tags nodes exists s))
        = tbl_rows (tbl_poly (if exists then pgsql_delete_way_from_output E oid s else s))
          @ map (\<lambda>w. \<lparr>row_id = oid, row_tags = tags, row_geom = Wkt w\<rparr>) (poly_wkts gs1)
          @ [\<lparr>row_id = oid,
              row_tags = (if 0 < area \<and> m_enable_way_area E
                          then tags @ [(''way_area'', format_g E area)] else tags),
              row_geom = Wkt wkt\<rparr>]
          @ rest
      \<and> map (\<lambda>r. (row_id r, row_geom r)) rest = map (\<lambda>w. (oid, Wkt w)) (poly_wkts gs2)"
proof -
  define s1 where "s1 = (if exists
                then (let sd = pgsql_delete_way_from_output E oid s
                      in sd\<lparr>rels_pending_tracker :=
                             mark_all (relations_using_way E oid) (rels_pending_tracker sd)\<rparr>)
                else s)"
  have e: "pgsql_out_way E oid tags nodes exists s
      = snd (fold (out_way_wkt E oid nodes roads) (gs1 @ (wkt, area) # gs2) (tags, s1))"
    unfolding pgsql_out_way_def s1_def [symmetric]
    by (simp add: f g out_way_wkts_fold del: fold_append fold_simps)
  have t: "tbl_poly s1 = tbl_poly (if exists then pgsql_delete_way_from_output E oid s else s)"
    by (simp add: s1_def Let_def)
  show ?thesis
    unfolding e t [symmetric]
    by (rule poly_loop_first [of "out_way_wkt E oid nodes roads" E oid gs1 wkt area gs2 tags s1,
          OF out_way_wkt_poly out_way_wkt_other n p])
qed

lemma supersede_members_rows_of_poly:
  assumes "\<forall>p \<in> set ms. mw_id (fst p) \<noteq> x"
  shows "rows_of x (tbl_poly (supersede_members E ms s)) = rows_of x (tbl_poly s)"
  using assms
proof (induction ms arbitrary: s)
  case Nil
  show ?case by simp
next
  case (Cons p ms)
  obtain m superseded where p: "p = (m, superseded)" by (cases p)
  have ne: "mw_id m \<noteq> x" and rest: "\<forall>p \<in> set ms. mw_id (fst p) \<noteq> x"
    using Cons.prems by (simp_all add: p)
  have d: "rows_of x (tbl_poly (pgsql_delete_way_from_output E (mw_id m) t))
      = rows_of x (tbl_poly t)" for t
    using keeps_delete_way [OF ne, of t E] by (simp add: keeps_rows_of_def)
  show ?case
    by (simp add: p Cons.IH [OF rest] d)
qed

lemma rows_of_append:
  "tbl_rows t' = tbl_rows t @ rs \<Longrightarrow> rows_of x t' = rows_of x t @ filter (\<lambda>r. row_id r = x) rs"
  by (simp add: rows_of_def)

lemma pgsql_out_relation_first_polygon:
  assumes xs: "xs \<noteq> []"
    and f: "filter_rel_member_tags E rel_tags (map mw_tags xs) (map mw_role xs)
      = (False, superseded, make_boundary, make_polygon, roads)"
    and b: "build E oid (map mw_nodes xs) make_polygon (opt_enable_multi (m_options E))
              (split_at E) = gs1 @ (wkt, area) # gs2"
    and n: "none_injected E gs1" and p: "is_polygon_wkt wkt"
    and ids: "\<forall>m \<in> set xs. mw_id m \<noteq> - oid"
  shows "\<exists>rest. rows_of (- oid) (tbl_poly (pgsql_out_relation E oid rel_tags xs s))
        = rows_of (- oid) (tbl_poly s)
          @ map (\<lambda>w. \<lparr>row_id = - oid, row_tags = rel_tags, row_geom = Wkt w\<rparr>) (poly_wkts gs1)
          @ [\<lparr>row_id = - oid,
              row_tags = (if 0 < area \<and> m_enable_way_area E
                          then rel_tags @ [(''way_area'', format_g E area)] else rel_tags),
              row_geom = Wkt wkt\<rparr>]
          @ rest
      \<and> map (\<lambda>r. (row_id r, row_geom r)) rest
          = map (\<lambda>w. (- oid, Wkt w))
              (poly_wkts gs2
               @ (if make_boundary
                  then poly_wkts (build E oid (map mw_nodes xs) True
                                    (opt_enable_multi (m_options E)) (split_at E))
                  else []))"
proof -
  let ?B = "build E oid (map mw_nodes xs) make_polygon (opt_enable_multi (m_options E))
              (split_at E)"
  let ?B2 = "build E oid (map mw_nodes xs) True (opt_enable_multi (m_options E)) (split_at E)"
  let ?plain = "map (\<lambda>w. \<lparr>row_id = - oid, row_tags = rel_tags, row_geom = Wkt w\<rparr>) (poly_wkts gs1)"
  let ?row = "\<lparr>row_id = - oid,
              row_tags = (if 0 < area \<and> m_enable_way_area E
                          then rel_tags @ [(''way_area'', format_g E area)] else rel_tags),
              row_geom = Wkt wkt\<rparr>"
  obtain tags1 s1 where w: "out_rel_wkts E oid roads ?B (rel_tags, s) = (tags1, s1)"
    by force
  define s2 where "s2 = (if make_polygon
      then supersede_members E (zip xs (members_superseeded (length xs) superseded)) s1
      else s1)"
  have e: "pgsql_out_relation E oid rel_tags xs s =
      (if make_boundary then snd (out_boundary_wkts E oid ?B2 (tags1, s2)) else s2)"
    unfolding pgsql_out_relation_unfold [OF f w s2_def] using xs b by simp
  have s1: "s1 = snd (fold (out_rel_wkt E oid roads) (gs1 @ (wkt, area) # gs2) (rel_tags, s))"
    using w unfolding b out_rel_wkts_fold by simp
  obtain rest1 where r1: "tbl_rows (tbl_poly s1) = tbl_rows (tbl_poly s) @ ?plain @ [?row] @ rest1"
      and m1: "map (\<lambda>r. (row_id r, row_geom r)) rest1 = map (\<lambda>w. (- oid, Wkt w)) (poly_wkts gs2)"
    unfolding s1
    using poly_loop_first [of "out_rel_wkt E oid roads" E "- oid" gs1 wkt area gs2 rel_tags s,
          OF out_rel_wkt_poly out_rel_wkt_other n p] by blast
  have a1: "rows_of (- oid) (tbl_poly s1) = rows_of (- oid) (tbl_poly s) @ ?plain @ [?row] @ rest1"
    unfolding rows_of_append [OF r1] using same_id_rows [OF m1]
    by (simp add: filter_id_conv)
  have z: "\<forall>p \<in> set (zip xs (members_superseeded (length xs) superseded)).
      mw_id (fst p) \<noteq> - oid"
    using ids by (auto dest: set_zip_leftD)
  have a2: "rows_of (- oid) (tbl_poly s2) = rows_of (- oid) (tbl_poly s1)"
    unfolding s2_def by (simp add: supersede_members_rows_of_poly [OF z])
  show ?thesis
  proof (cases make_boundary)
    case True
    obtain rest2 where r2: "tbl_rows (tbl_poly (snd (out_boundary_wkts E oid ?B2 (tags1, s2))))
        = tbl_rows (tbl_poly s2) @ rest2"
      and m2: "map (\<lambda>r. (row_id r, row_geom r)) rest2 = map (\<lambda>w. (- oid, Wkt w)) (poly_wkts ?B2)"
      unfolding out_boundary_wkts_fold
      using poly_loop_extends [of "out_boundary_wkt E oid" E "- oid" ?B2 "(tags1, s2)",
          OF out_boundary_wkt_poly out_boundary_wkt_other] by auto
    have a3: "rows_of (- oid) (tbl_poly (snd (out_boundary_wkts E oid ?B2 (tags1, s2))))
        = rows_of (- oid) (tbl_poly s2) @ rest2"
      unfolding rows_of_append [OF r2] using same_id_rows [OF m2] by simp
    show ?thesis
      apply (rule exI [of _ "rest1 @ rest2"])
      unfolding e using True a1 a2 a3 m1 m2 by simp
  next
    case False
    show ?thesis
      apply (rule exI [of _ rest1])
      unfolding e using False a1 a2 m1 by simp
  qed
qed

lemma pgsql_out_relation_boundary_polygon:
  assumes xs: "xs \<noteq> []"
    and f: "filter_rel_member_tags E rel_tags (map mw_tags xs) (map mw_role xs)
      = (False, superseded, True, make_polygon, roads)"
    and b: "build E oid (map mw_nodes xs) make_polygon (opt_enable_multi (m_options E))
              (split_at E) = wkts"
    and ne: "wkts \<noteq> []" and n0: "none_injected E wkts"
    and b2: "build E oid (map mw_nodes xs) True (opt_enable_multi (m_options E))
              (split_at E) = b1 @ (wkt, area) # b2"
    and n: "none_injected E b1" and p: "is_polygon_wkt wkt"
    and ids: "\<forall>m \<in> set xs. mw_id m \<noteq> - oid"
  shows "\<exists>rest. rows_of (- oid) (tbl_poly (pgsql_out_relation E oid rel_tags xs s))
        = rows_of (- oid) (tbl_poly s)
          @ map (\<lambda>w. \<lparr>row_id = - oid, row_tags = rel_tags, row_geom = Wkt w\<rparr>)
              (poly_wkts wkts @ poly_wkts b1)
          @ [\<lparr>row_id = - oid,
              row_tags = (if 0 < area \<and> m_enable_way_area E
                          then rel_tags @ [(''way_area'', format_g E area)] else rel_tags),
              row_geom = Wkt wkt\<rparr>]
          @ rest
      \<and> map (\<lambda>r. (row_id r, row_geom r)) rest = map (\<lambda>w. (- oid, Wkt w)) (poly_wkts b2)"
proof -
  let ?plain = "\<lambda>gs. map (\<lambda>w. \<lparr>row_id = - oid, row_tags = rel_tags, row_geom = Wkt w\<rparr>)
      (poly_wkts gs)"
  let ?row = "\<lparr>row_id = - oid,
              row_tags = (if 0 < area \<and> m_enable_way_area E
                          then rel_tags @ [(''way_area'', format_g E area)] else rel_tags),
              row_geom = Wkt wkt\<rparr>"
  obtain tags1 s1 where w: "out_rel_wkts E oid roads wkts (rel_tags, s) = (tags1, s1)"
    by force
  define s2 where "s2 = (if make_polygon
      then supersede_members E (zip xs (members_superseeded (length xs) superseded)) s1
      else s1)"
  have e: "pgsql_out_relation E oid rel_tags xs s =
      snd (fold (out_boundary_wkt E oid) (b1 @ (wkt, area) # b2) (tags1, s2))"
    unfolding pgsql_out_relation_unfold [OF f w [folded b] s2_def] b b2 out_boundary_wkts_fold
    using xs ne by simp
  have l: "tags1 = rel_tags" and r1: "tbl_rows (tbl_poly s1) = tbl_rows (tbl_poly s) @ ?plain wkts"
    using poly_loop_none [of "out_rel_wkt E oid roads" E "- oid" wkts rel_tags s,
          OF out_rel_wkt_poly out_rel_wkt_other n0] w
    unfolding out_rel_wkts_fold by simp_all
  have a1: "rows_of (- oid) (tbl_poly s1) = rows_of (- oid) (tbl_poly s) @ ?plain wkts"
    unfolding rows_of_append [OF r1] by (simp add: filter_id_conv)
  have z: "\<forall>p \<in> set (zip xs (members_superseeded (length xs) superseded)).
      mw_id (fst p) \<noteq> - oid"
    using ids by (auto dest: set_zip_leftD)
  have a2: "rows_of (- oid) (tbl_poly s2) = rows_of (- oid) (tbl_poly s1)"
    unfolding s2_def by (simp add: supersede_members_rows_of_poly [OF z])
  obtain rest where r3: "tbl_rows (tbl_poly (snd (fold (out_boundary_wkt E oid)
        (b1 @ (wkt, area) # b2) (rel_tags, s2))))
      = tbl_rows (tbl_poly s2) @ (?plain b1 @ [?row] @ rest)"
    and m3: "map (\<lambda>r. (row_id r, row_geom r)) rest = map (\<lambda>w. (- oid, Wkt w)) (poly_wkts b2)"
    using poly_loop_first [of "out_boundary_wkt E oid" E "- oid" b1 wkt area b2 rel_tags s2,
          OF out_boundary_wkt_poly out_boundary_wkt_other n p] by auto
  have a3: "rows_of (- oid) (tbl_poly (snd (fold (out_boundary_wkt E oid)
        (b1 @ (wkt, area) # b2) (rel_tags, s2))))
      = rows_of (- oid) (tbl_poly s2) @ ?plain b1 @ [?row] @ rest"
    unfolding rows_of_append [OF r3] using same_id_rows [OF m3] by (simp add: filter_id_conv)
  show ?thesis
    apply (rule exI [of _ rest])
    unfolding e l using a1 a2 a3 m3 by simp
qed

lemma read_style_file_way_area:
  assumes r: "read_style_file flags0 file ferr new_export_list = Inr (el, enable)"
  shows "enable \<longleftrightarrow> \<not> way_area_deleted el"
proof -
  from r obtain contents where c: "file = Some contents"
    by (cases "file") (simp_all add: read_style_file_def)
  from r c obtain ps where
    p: "style_lines (file_buffers contents) (init_parse_state flags0 new_export_list) = Inr ps"
    and e: "el = ps_exlist ps" "enable = ps_enable_way_area ps"
    by (auto simp add: read_style_file_def split: sum.splits if_splits)
  have "ps_enable_way_area (init_parse_state flags0 new_export_list) \<longleftrightarrow>
      \<not> way_area_deleted (ps_exlist (init_parse_state flags0 new_export_list))"
    by (simp add: init_parse_state_def new_export_list_def way_area_deleted_def)
  from style_lines_way_area [OF p this] show ?thesis
    using e by simp
qed

lemma start_way_area:
  assumes "start flags0 file ferr E0 = Inr (el, E)"
  shows "m_enable_way_area E \<longleftrightarrow> \<not> way_area_deleted el"
proof -
  from assms obtain enable where
    r: "read_style_file flags0 file ferr new_export_list = Inr (el, enable)"
    and E: "E = E0\<lparr>m_enable_way_area := enable\<rparr>"
    by (auto simp add: start_def split: sum.splits prod.splits)
  show ?thesis
    using read_style_file_way_area [OF r] by (simp add: E)
qed

text \<open>
  Claim C8, as amended. Let \<open>start\<close> have read the style file without a fatal error, so
  that \<open>m_enable_way_area\<close> is the value that \<open>read_style_file\<close> returned. Then
  \<open>m_enable_way_area\<close> is false if and only if the export list has a rule with the name
  \<open>way_area\<close> whose flag set is exactly DELETE (a rule that carries DELETE with another
  flag does not count). Consequently, for the polygon rows of a way (\<open>pgsql_out_way\<close>)
  and of a relation none of whose member ways has the negated id of the relation
  (\<open>pgsql_out_relation\<close>, in its first loop and in its boundary pass): as long as no
  earlier geometry of the object had a \<open>way_area\<close> item appended, the polygon rows are
  written with the tags of the object, and the row of the next polygon geometry is
  written with the item \<open>way_area\<close> of its area appended to these tags exactly when the
  area is greater than zero and the style has no such rule. The rows of the later
  geometries follow; the theorem gives their ids and geometries and leaves their tags
  open.
\<close>

theorem way_area_enabled_and_injected:
  assumes "start flags0 file ferr E0 = Inr (el, E)"
  shows "read_style_file flags0 file ferr new_export_list = Inr (el, m_enable_way_area E)
    \<and> (m_enable_way_area E \<longleftrightarrow> \<not> way_area_deleted el)
    \<and> (filter_way_tags E tags = (False, polygon, roads)
         \<and> get_wkt_split E nodes polygon (split_at E) = gs1 @ (wkt, area) # gs2
         \<and> none_injected E gs1 \<and> is_polygon_wkt wkt \<longrightarrow>
       (\<exists>rest. tbl_rows (tbl_poly (pgsql_out_way E oid tags nodes exists s))
          = tbl_rows (tbl_poly (if exists then pgsql_delete_way_from_output E oid s else s))
            @ map (\<lambda>w. \<lparr>row_id = oid, row_tags = tags, row_geom = Wkt w\<rparr>) (poly_wkts gs1)
            @ [\<lparr>row_id = oid,
                row_tags = (if 0 < area \<and> \<not> way_area_deleted el
                            then tags @ [(''way_area'', format_g E area)] else tags),
                row_geom = Wkt wkt\<rparr>]
            @ rest
          \<and> map (\<lambda>r. (row_id r, row_geom r)) rest = map (\<lambda>w. (oid, Wkt w)) (poly_wkts gs2)))
    \<and> (xs \<noteq> [] \<and> (\<forall>m \<in> set xs. mw_id m \<noteq> - oid)
         \<and> filter_rel_member_tags E rel_tags (map mw_tags xs) (map mw_role xs)
             = (False, superseded, make_boundary, make_polygon, rel_roads)
         \<and> build E oid (map mw_nodes xs) make_polygon (opt_enable_multi (m_options E))
               (split_at E) = rs1 @ (rel_wkt, rel_area) # rs2
         \<and> none_injected E rs1 \<and> is_polygon_wkt rel_wkt \<longrightarrow>
       (\<exists>rest. rows_of (- oid) (tbl_poly (pgsql_out_relation E oid rel_tags xs s))
          = rows_of (- oid) (tbl_poly s)
            @ map (\<lambda>w. \<lparr>row_id = - oid, row_tags = rel_tags, row_geom = Wkt w\<rparr>)
                (poly_wkts rs1)
            @ [\<lparr>row_id = - oid,
                row_tags = (if 0 < rel_area \<and> \<not> way_area_deleted el
                            then rel_tags @ [(''way_area'', format_g E rel_area)] else rel_tags),
                row_geom = Wkt rel_wkt\<rparr>]
            @ rest
          \<and> map (\<lambda>r. (row_id r, row_geom r)) rest
              = map (\<lambda>w. (- oid, Wkt w))
                  (poly_wkts rs2
                   @ (if make_boundary
                      then poly_wkts (build E oid (map mw_nodes xs) True
                                        (opt_enable_multi (m_options E)) (split_at E))
                      else []))))
    \<and> (xs \<noteq> [] \<and> (\<forall>m \<in> set xs. mw_id m \<noteq> - oid)
         \<and> filter_rel_member_tags E rel_tags (map mw_tags xs) (map mw_role xs)
             = (False, superseded, True, make_polygon, rel_roads)
         \<and> build E oid (map mw_nodes xs) make_polygon (opt_enable_multi (m_options E))
               (split_at E) = wkts
         \<and> wkts \<noteq> [] \<and> none_injected E wkts
         \<and> build E oid (map mw_nodes xs) True (opt_enable_multi (m_options E))
               (split_at E) = bs1 @ (b_wkt, b_area) # bs2
         \<and> none_injected E bs1 \<and> is_polygon_wkt b_wkt \<longrightarrow>
       (\<exists>rest. rows_of (- oid) (tbl_poly (pgsql_out_relation E oid rel_tags xs s))
          = rows_of (- oid) (tbl_poly s)
            @ map (\<lambda>w. \<lparr>row_id = - oid, row_tags = rel_tags, row_geom = Wkt w\<rparr>)
                (poly_wkts wkts @ poly_wkts bs1)
            @ [\<lparr>row_id = - oid,
                row_tags = (if 0 < b_area \<and> \<not> way_area_deleted el
                            then rel_tags @ [(''way_area'', format_g E b_area)] else rel_tags),
                row_geom = Wkt b_wkt\<rparr>]
            @ rest
          \<and> map (\<lambda>r. (row_id r, row_geom r)) rest
              = map (\<lambda>w. (- oid, Wkt w)) (poly_wkts bs2)))"
proof -
  have en: "m_enable_way_area E \<longleftrightarrow> \<not> way_area_deleted el"
    using assms by (rule start_way_area)
  show ?thesis
  proof (intro conjI impI)
    show "read_style_file flags0 file ferr new_export_list = Inr (el, m_enable_way_area E)"
      using assms by (auto simp add: start_def split: sum.splits prod.splits)
  next
    show "m_enable_way_area E \<longleftrightarrow> \<not> way_area_deleted el"
      by (rule en)
  next
    assume "filter_way_tags E tags = (False, polygon, roads)
         \<and> get_wkt_split E nodes polygon (split_at E) = gs1 @ (wkt, area) # gs2
         \<and> none_injected E gs1 \<and> is_polygon_wkt wkt"
    then show "\<exists>rest. tbl_rows (tbl_poly (pgsql_out_way E oid tags nodes exists s))
          = tbl_rows (tbl_poly (if exists then pgsql_delete_way_from_output E oid s else s))
            @ map (\<lambda>w. \<lparr>row_id = oid, row_tags = tags, row_geom = Wkt w\<rparr>) (poly_wkts gs1)
            @ [\<lparr>row_id = oid,
                row_tags = (if 0 < area \<and> \<not> way_area_deleted el
                            then tags @ [(''way_area'', format_g E area)] else tags),
                row_geom = Wkt wkt\<rparr>]
            @ rest
          \<and> map (\<lambda>r. (row_id r, row_geom r)) rest = map (\<lambda>w. (oid, Wkt w)) (poly_wkts gs2)"
      unfolding en [symmetric]
      using pgsql_out_way_first_polygon [of E tags polygon roads nodes gs1 wkt area gs2 oid
          exists s]
      by blast
  next
    assume "xs \<noteq> [] \<and> (\<forall>m \<in> set xs. mw_id m \<noteq> - oid)
         \<and> filter_rel_member_tags E rel_tags (map mw_tags xs) (map mw_role xs)
             = (False, superseded, make_boundary, make_polygon, rel_roads)
         \<and> build E oid (map mw_nodes xs) make_polygon (opt_enable_multi (m_options E))
               (split_at E) = rs1 @ (rel_wkt, rel_area) # rs2
         \<and> none_injected E rs1 \<and> is_polygon_wkt rel_wkt"
    then show "\<exists>rest. rows_of (- oid) (tbl_poly (pgsql_out_relation E oid rel_tags xs s))
          = rows_of (- oid) (tbl_poly s)
            @ map (\<lambda>w. \<lparr>row_id = - oid, row_tags = rel_tags, row_geom = Wkt w\<rparr>)
                (poly_wkts rs1)
            @ [\<lparr>row_id = - oid,
                row_tags = (if 0 < rel_area \<and> \<not> way_area_deleted el
                            then rel_tags @ [(''way_area'', format_g E rel_area)] else rel_tags),
                row_geom = Wkt rel_wkt\<rparr>]
            @ rest
          \<and> map (\<lambda>r. (row_id r, row_geom r)) rest
              = map (\<lambda>w. (- oid, Wkt w))
                  (poly_wkts rs2
                   @ (if make_boundary
                      then poly_wkts (build E oid (map mw_nodes xs) True
                                        (opt_enable_multi (m_options E)) (split_at E))
                      else []))"
      unfolding en [symmetric]
      using pgsql_out_relation_first_polygon [of xs E rel_tags superseded make_boundary
          make_polygon rel_roads oid rs1 rel_wkt rel_area rs2 s]
      by blast
  next
    assume "xs \<noteq> [] \<and> (\<forall>m \<in> set xs. mw_id m \<noteq> - oid)
         \<and> filter_rel_member_tags E rel_tags (map mw_tags xs) (map mw_role xs)
             = (False, superseded, True, make_polygon, rel_roads)
         \<and> build E oid (map mw_nodes xs) make_polygon (opt_enable_multi (m_options E))
               (split_at E) = wkts
         \<and> wkts \<noteq> [] \<and> none_injected E wkts
         \<and> build E oid (map mw_nodes xs) True (opt_enable_multi (m_options E))
               (split_at E) = bs1 @ (b_wkt, b_area) # bs2
         \<and> none_injected E bs1 \<and> is_polygon_wkt b_wkt"
    then show "\<exists>rest. rows_of (- oid) (tbl_poly (pgsql_out_relation E oid rel_tags xs s))
          = rows_of (- oid) (tbl_poly s)
            @ map (\<lambda>w. \<lparr>row_id = - oid, row_tags = rel_tags, row_geom = Wkt w\<rparr>)
                (poly_wkts wkts @ poly_wkts bs1)
            @ [\<lparr>row_id = - oid,
                row_tags = (if 0 < b_area \<and> \<not> way_area_deleted el
                            then rel_tags @ [(''way_area'', format_g E b_area)] else rel_tags),
                row_geom = Wkt b_wkt\<rparr>]
            @ rest
          \<and> map (\<lambda>r. (row_id r, row_geom r)) rest
              = map (\<lambda>w. (- oid, Wkt w)) (poly_wkts bs2)"
      unfolding en [symmetric]
      using pgsql_out_relation_boundary_polygon [of xs E rel_tags superseded make_polygon
          rel_roads oid wkts bs1 b_wkt b_area bs2 s]
      by blast
  qed
qed

theorem way_area_enabled_and_injected_witness:
  "start [] (Some (''node,way highway text linear'' @ [CHR 0x0A]
       @ ''way way_area real delete'')) False (example_env True False)
     = Inr (\<lparr>el_node = [\<lparr>ti_name = ''highway'', ti_type = ''text'', ti_flags = {FLAG_LINEAR}\<rparr>],
            el_way = [\<lparr>ti_name = ''highway'', ti_type = ''text'', ti_flags = {FLAG_LINEAR}\<rparr>,
                      \<lparr>ti_name = ''way_area'', ti_type = ''real'', ti_flags = {FLAG_DELETE}\<rparr>]\<rparr>,
           (example_env True False)\<lparr>m_enable_way_area := False\<rparr>)
   \<and> tbl_rows (tbl_poly (pgsql_out_way ((example_env True False)\<lparr>m_enable_way_area := False\<rparr>)
        7 [(''building'', ''yes'')] example_ring False example_state))
     = [\<lparr>row_id = 7, row_tags = [(''building'', ''yes'')],
         row_geom = Wkt ''POLYGON((0 0,0 1,1 1,0 0))''\<rparr>]
   \<and> start [] (Some ''node,way highway text linear'') False (example_env True False)
     = Inr (\<lparr>el_node = [\<lparr>ti_name = ''highway'', ti_type = ''text'', ti_flags = {FLAG_LINEAR}\<rparr>],
            el_way = [\<lparr>ti_name = ''highway'', ti_type = ''text'', ti_flags = {FLAG_LINEAR}\<rparr>]\<rparr>,
           (example_env True False)\<lparr>m_enable_way_area := True\<rparr>)
   \<and> tbl_rows (tbl_poly (pgsql_out_way ((example_env True False)\<lparr>m_enable_way_area := True\<rparr>)
        7 [(''building'', ''yes'')] example_ring False example_state))
     = [\<lparr>row_id = 7, row_tags = [(''building'', ''yes''), (''way_area'', ''0.5'')],
         row_geom = Wkt ''POLYGON((0 0,0 1,1 1,0 0))''\<rparr>]
   \<and> rows_of (- 99) (tbl_poly (pgsql_out_relation
        ((example_env True False)\<lparr>m_enable_way_area := True\<rparr>)
        99 example_rel_tags example_member_ways example_state))
     = [\<lparr>row_id = - 99, row_tags = example_rel_tags @ [(''way_area'', ''0.5'')],
         row_geom = Wkt ''MULTIPOLYGON(((0 0,0 1,1 1,0 0)))''\<rparr>]
   \<and> rows_of (- 99) (tbl_poly (pgsql_out_relation
        ((example_env True False)\<lparr>m_enable_way_area := True\<rparr>)
        99 example_boundary_tags example_member_ways example_state))
     = [\<lparr>row_id = - 99, row_tags = example_boundary_tags @ [(''way_area'', ''0.5'')],
         row_geom = Wkt ''MULTIPOLYGON(((0 0,0 1,1 1,0 0)))''\<rparr>]"
proof -
  let ?c1 = "''node,way highway text linear'' @ [CHR 0x0A] @ ''way way_area real delete''"
  let ?c2 = "''node,way highway text linear''"
  let ?hw = "\<lparr>ti_name = ''highway'', ti_type = ''text'', ti_flags = {FLAG_LINEAR}\<rparr>"
  let ?el1 = "\<lparr>el_node = [?hw],
         el_way = [?hw, \<lparr>ti_name = ''way_area'', ti_type = ''real'', ti_flags = {FLAG_DELETE}\<rparr>]\<rparr>"
  let ?el2 = "\<lparr>el_node = [?hw], el_way = [?hw]\<rparr>"
  let ?E1 = "(example_env True False)\<lparr>m_enable_way_area := False\<rparr>"
  let ?E2 = "(example_env True False)\<lparr>m_enable_way_area := True\<rparr>"
  let ?P = "''POLYGON((0 0,0 1,1 1,0 0))''"
  let ?M = "''MULTIPOLYGON(((0 0,0 1,1 1,0 0)))''"
  have r1: "read_style_file [] (Some ?c1) False new_export_list = Inr (?el1, False)"
    by code_simp
  have r2: "read_style_file [] (Some ?c2) False new_export_list = Inr (?el2, True)"
    by code_simp
  have s1: "start [] (Some ?c1) False (example_env True False) = Inr (?el1, ?E1)"
    by (simp only: start_def r1 sum.case prod.case)
  have s2: "start [] (Some ?c2) False (example_env True False) = Inr (?el2, ?E2)"
    by (simp only: start_def r2 sum.case prod.case)
  have d1: "way_area_deleted ?el1" and d2: "\<not> way_area_deleted ?el2"
    by (simp_all add: way_area_deleted_def)
  have p: "is_polygon_wkt ?P" "is_polygon_wkt ?M" "\<not> is_polygon_wkt ''LINESTRING(0 0,1 1)''"
    by (simp_all add: is_polygon_wkt_def)
  have n: "none_injected E []" for E
    by (simp add: none_injected_def)
  have nl: "none_injected E [(''LINESTRING(0 0,1 1)'', 0)]" for E
    by (simp add: none_injected_def)
  have pw: "poly_wkts [] = []" "poly_wkts [(''LINESTRING(0 0,1 1)'', 0)] = []"
    by (simp_all add: poly_wkts_def p)
  have ids: "example_member_ways \<noteq> [] \<and> (\<forall>m \<in> set example_member_ways. mw_id m \<noteq> - 99)"
    by (simp add: example_member_ways_def)
  have a: "tbl_rows (tbl_poly (pgsql_out_way ?E1 7 [(''building'', ''yes'')] example_ring False
        example_state))
     = [\<lparr>row_id = 7, row_tags = [(''building'', ''yes'')], row_geom = Wkt ?P\<rparr>]"
    using way_area_enabled_and_injected [OF s1, where tags = "[(''building'', ''yes'')]"
        and polygon = True and roads = False and nodes = example_ring and ?gs1.0 = "[]"
        and wkt = ?P and area = "1 / 2" and ?gs2.0 = "[]" and oid = 7 and exists = False
        and s = example_state] d1 p n pw
    by (simp add: example_env_simps split_at_def example_ring_def example_state_def
        empty_table_def)
  have b: "tbl_rows (tbl_poly (pgsql_out_way ?E2 7 [(''building'', ''yes'')] example_ring False
        example_state))
     = [\<lparr>row_id = 7, row_tags = [(''building'', ''yes''), (''way_area'', ''0.5'')],
         row_geom = Wkt ?P\<rparr>]"
    using way_area_enabled_and_injected [OF s2, where tags = "[(''building'', ''yes'')]"
        and polygon = True and roads = False and nodes = example_ring and ?gs1.0 = "[]"
        and wkt = ?P and area = "1 / 2" and ?gs2.0 = "[]" and oid = 7 and exists = False
        and s = example_state] d2 p n pw
    by (simp add: example_env_simps split_at_def example_ring_def example_state_def
        empty_table_def)
  have c: "rows_of (- 99) (tbl_poly (pgsql_out_relation ?E2 99 example_rel_tags
        example_member_ways example_state))
     = [\<lparr>row_id = - 99, row_tags = example_rel_tags @ [(''way_area'', ''0.5'')],
         row_geom = Wkt ?M\<rparr>]"
    using way_area_enabled_and_injected [OF s2, where xs = example_member_ways and oid = 99
        and rel_tags = example_rel_tags and superseded = "[True, True]"
        and make_boundary = False and make_polygon = True and rel_roads = False
        and ?rs1.0 = "[]" and rel_wkt = ?M and rel_area = "1 / 2" and ?rs2.0 = "[]"
        and s = example_state] d2 p n pw ids
    by (simp add: example_env_simps split_at_def example_state_def empty_table_def
        rows_of_def example_rel_tags_def example_member_ways_def)
  have d: "rows_of (- 99) (tbl_poly (pgsql_out_relation ?E2 99 example_boundary_tags
        example_member_ways example_state))
     = [\<lparr>row_id = - 99, row_tags = example_boundary_tags @ [(''way_area'', ''0.5'')],
         row_geom = Wkt ?M\<rparr>]"
    using way_area_enabled_and_injected [OF s2, where xs = example_member_ways and oid = 99
        and rel_tags = example_boundary_tags and superseded = "[True, True]"
        and make_polygon = False and rel_roads = False
        and wkts = "[(''LINESTRING(0 0,1 1)'', 0)]"
        and ?bs1.0 = "[]" and b_wkt = ?M and b_area = "1 / 2" and ?bs2.0 = "[]"
        and s = example_state] d2 p n nl pw ids
    by (simp add: example_env_simps split_at_def example_state_def empty_table_def
        rows_of_def example_boundary_tags_def example_member_ways_def)
  show ?thesis
    using s1 a s2 b c d by blast
qed

text \<open>
  Claim C8 as stated fails. The rule below has the name \<open>way_area\<close> and carries the
  DELETE flag (with NOCACHE), and \<open>enable_way_area\<close> is still true. And of the two polygons
  that the builder returns for the way 7 below, the second has the area zero, and its row
  is written with the \<open>way_area\<close> item that the first one left in the tag list.
\<close>

theorem way_area_delete_with_other_flag_counterexample:
  "read_style_file [] (Some ''way way_area real delete,nocache'') False new_export_list
     = Inr (\<lparr>el_node = [],
            el_way = [\<lparr>ti_name = ''way_area'', ti_type = ''real'',
                       ti_flags = {FLAG_DELETE, FLAG_NOCACHE}\<rparr>]\<rparr>, True)
   \<and> FLAG_DELETE \<in> {FLAG_DELETE, FLAG_NOCACHE}
   \<and> get_wkt_split example_env_two_polygons example_ring True
         (split_at example_env_two_polygons)
       = [(''POLYGON((0 0,0 1,1 1,0 0))'', 1 / 2), (''POLYGON((2 2,2 2,2 2,2 2))'', 0)]
   \<and> tbl_rows (tbl_poly (pgsql_out_way example_env_two_polygons 7 [(''building'', ''yes'')]
         example_ring False example_state))
       = [\<lparr>row_id = 7, row_tags = [(''building'', ''yes''), (''way_area'', ''0.5'')],
           row_geom = Wkt ''POLYGON((0 0,0 1,1 1,0 0))''\<rparr>,
          \<lparr>row_id = 7, row_tags = [(''building'', ''yes''), (''way_area'', ''0.5'')],
           row_geom = Wkt ''POLYGON((2 2,2 2,2 2,2 2))''\<rparr>]"
proof -
  have 1: "read_style_file [] (Some ''way way_area real delete,nocache'') False new_export_list
     = Inr (\<lparr>el_node = [],
            el_way = [\<lparr>ti_name = ''way_area'', ti_type = ''real'',
                       ti_flags = {FLAG_DELETE, FLAG_NOCACHE}\<rparr>]\<rparr>, True)"
    by code_simp
  have 2: "FLAG_DELETE \<in> {FLAG_DELETE, FLAG_NOCACHE}"
    by simp
  have 3: "get_wkt_split example_env_two_polygons nodes polygon split
       = [(''POLYGON((0 0,0 1,1 1,0 0))'', 1 / 2), (''POLYGON((2 2,2 2,2 2,2 2))'', 0)]"
    for nodes polygon split
    by (simp add: example_env_two_polygons_def)
  have 4: "tbl_rows (tbl_poly (pgsql_out_way example_env_two_polygons 7 [(''building'', ''yes'')]
         example_ring False example_state))
       = [\<lparr>row_id = 7, row_tags = [(''building'', ''yes''), (''way_area'', ''0.5'')],
           row_geom = Wkt ''POLYGON((0 0,0 1,1 1,0 0))''\<rparr>,
          \<lparr>row_id = 7, row_tags = [(''building'', ''yes''), (''way_area'', ''0.5'')],
           row_geom = Wkt ''POLYGON((2 2,2 2,2 2,2 2))''\<rparr>]"
    by (simp add: pgsql_out_way_def 3 example_env_two_polygons_def example_env_simps
        split_at_def out_way_wkt_def is_polygon_wkt_def add_way_area_def write_way_def
        Let_def example_state_def empty_table_def)
  show ?thesis
    using 1 2 3 4 by blast
qed

end
